theory Spec2Isabelle
  imports Complex_Main "HOL-Library.AList"
begin

section \<open>Locator: paths and identifiers\<close>

text \<open>
  The engine keys every chat row by the path of its link.  \<open>normalizePath\<close> asks the
  platform's URL parser for the path name and removes the trailing slashes; when the
  parser throws it cuts the string at the first question mark instead.

  \<^verbatim>\<open>
  normalizePath(href) {
      try {
          const u = new URL(href, location.origin);
          return u.pathname.replace(/\/+$/, '');
      } catch {
          return (href || '').split('?')[0].replace(/\/+$/, '');
      }
  }
  \<close>
\<close>

definition stripTrailingSlashes :: "string \<Rightarrow> string" where
  \<comment> \<open>\<^verbatim>\<open>s.replace(/\/+$/, '')\<close>: the maximal run of slashes that ends the string is removed.\<close>
  "stripTrailingSlashes s = rev (dropWhile (\<lambda>c. c = CHR ''/'') (rev s))"

definition beforeChar :: "char \<Rightarrow> string \<Rightarrow> string" where
  \<comment> \<open>\<^verbatim>\<open>s.split(ch)[0]\<close>\<close>
  "beforeChar ch s = takeWhile (\<lambda>c. c \<noteq> ch) s"

definition ciChar :: "char \<Rightarrow> char \<Rightarrow> bool" where
  \<comment> \<open>\<open>c\<close> is the lower-case ASCII letter \<open>l\<close> or its upper-case form.\<close>
  "ciChar l c = (c = l \<or>
     (65 \<le> (of_char c :: nat) \<and> (of_char c :: nat) \<le> 90 \<and> (of_char c :: nat) + 32 = of_char l))"

definition ciPrefix :: "string \<Rightarrow> string \<Rightarrow> bool" where
  "ciPrefix pat s = (length pat \<le> length s \<and> list_all2 ciChar pat (take (length pat) s))"

definition afterAuthority :: "string \<Rightarrow> string option" where
  \<comment> \<open>The text after \<^verbatim>\<open>scheme:\<close> or after the two slashes of a network-path reference:
      further slashes are skipped, the authority runs to the next slash, the rest is the
      path (\<^verbatim>\<open>/\<close> when empty).  An empty authority makes the constructor throw.\<close>
  "afterAuthority r =
     (let r' = dropWhile (\<lambda>c. c = CHR ''/'') r;
          auth = takeWhile (\<lambda>c. c \<noteq> CHR ''/'') r';
          path = dropWhile (\<lambda>c. c \<noteq> CHR ''/'') r'
      in if auth = [] then None else Some (if path = [] then ''/'' else path))"

definition urlPathname :: "string \<Rightarrow> string option" where
  \<comment> \<open>Platform model, not repository code: \<^verbatim>\<open>new URL(href, location.origin).pathname\<close> on a
      page served over http(s); \<open>None\<close> stands for the constructor throwing.  Modelled are
      the fragment and the query being cut off, an http(s) URL with its authority, a
      network-path reference \<^verbatim>\<open>//host/path\<close>, an absolute path, and a relative path resolved
      against the origin (whose own path is \<^verbatim>\<open>/\<close>).  Not modelled: dot-segment removal,
      percent-encoding, backslashes, white space, host validation and other schemes.\<close>
  "urlPathname href =
     (let s = beforeChar (CHR ''?'') (beforeChar (CHR ''#'') href) in
      if ciPrefix ''https://'' s then afterAuthority (drop 8 s)
      else if ciPrefix ''http://'' s then afterAuthority (drop 7 s)
      else if take 2 s = ''//'' then afterAuthority (drop 2 s)
      else if take 1 s = ''/'' then Some s
      else Some (CHR ''/'' # s))"

definition normalizePath :: "string \<Rightarrow> string" where
  "normalizePath href =
     (case urlPathname href of
        Some pathname \<Rightarrow> stripTrailingSlashes pathname
      | None \<Rightarrow> stripTrailingSlashes (beforeChar (CHR ''?'') href))"

text \<open>
  \<^verbatim>\<open>
  extractIdFromHref(href) {
      if (!href) return null;
      const path = this.normalizePath(href);
      const m = path.match(/\/c\/([a-z0-9-]+)(?:\/)?$/i);
      return m ? m[1] : null;
  }
  \<close>
  The regular expression is tried at every start position from the left; the class
  \<^verbatim>\<open>[a-z0-9-]\<close> is greedy, and since it excludes the slash and must be followed by the
  end of the string (after at most one slash), giving characters back never helps.
\<close>

definition idChar :: "char \<Rightarrow> bool" where
  \<comment> \<open>\<^verbatim>\<open>[a-z0-9-]\<close> under the flag \<^verbatim>\<open>i\<close>\<close>
  "idChar c = (let n = (of_char c :: nat) in
     (97 \<le> n \<and> n \<le> 122) \<or> (65 \<le> n \<and> n \<le> 90) \<or> (48 \<le> n \<and> n \<le> 57) \<or> c = CHR ''-'')"

fun matchAt :: "string \<Rightarrow> string option" where
  \<comment> \<open>the pattern \<^verbatim>\<open>\/c\/([a-z0-9-]+)(?:\/)?$\<close> matched at the first character\<close>
  "matchAt (s1 # c # s2 # rest) =
     (if s1 = CHR ''/'' \<and> ciChar (CHR ''c'') c \<and> s2 = CHR ''/''
      then (let ident = takeWhile idChar rest; after = dropWhile idChar rest
            in if ident \<noteq> [] \<and> (after = [] \<or> after = ''/'') then Some ident else None)
      else None)"
| "matchAt _ = None"

fun regexMatch :: "string \<Rightarrow> string option" where
  \<comment> \<open>\<^verbatim>\<open>path.match(...)\<close>: the leftmost match; the result is capture group 1\<close>
  "regexMatch [] = None"
| "regexMatch (c # cs) =
     (case matchAt (c # cs) of Some ident \<Rightarrow> Some ident | None \<Rightarrow> regexMatch cs)"

fun extractIdFromHref :: "string option \<Rightarrow> string option" where
  \<comment> \<open>\<open>None\<close> as argument is \<^verbatim>\<open>null\<close> (a row without the attribute); the empty string is
      falsy as well.\<close>
  "extractIdFromHref None = None"
| "extractIdFromHref (Some href) =
     (if href = [] then None else regexMatch (normalizePath href))"

definition plainChar :: "char \<Rightarrow> bool" where
  \<comment> \<open>characters the URL parser copies unchanged and that have no meaning of their own\<close>
  "plainChar c = (idChar c \<or> c = CHR ''_'' \<or> c = CHR ''~'')"

definition valid_ref :: "string \<Rightarrow> bool" where
  \<comment> \<open>A navigable reference as the host page writes it on a row: an absolute path of
      plain segments, possibly with trailing slashes, possibly followed by a query string.\<close>
  "valid_ref x =
     (let path = beforeChar (CHR ''?'') x; query = dropWhile (\<lambda>c. c \<noteq> CHR ''?'') x in
      take 1 path = ''/'' \<and> take 2 path \<noteq> ''//''
      \<and> list_all (\<lambda>c. plainChar c \<or> c = CHR ''/'') path
      \<and> list_all (\<lambda>c. plainChar c \<or> c \<in> set ''/?=&'') query)"

definition identifierSegment :: "string \<Rightarrow> string \<Rightarrow> bool" where
  \<comment> \<open>the path ends with the segment \<open>ident\<close>, made of identifier characters, right after a
      segment \<^verbatim>\<open>c\<close>\<close>
  "identifierSegment p ident =
     (ident \<noteq> [] \<and> list_all idChar ident
      \<and> (\<exists>pre c. ciChar (CHR ''c'') c \<and> p = pre @ [CHR ''/'', c, CHR ''/''] @ ident))"

section \<open>Configuration\<close>

text \<open>
  The constructor takes an options object whose fields all have defaults; only the
  concurrency is changed on the way in:
  \<^verbatim>\<open>this.concurrency = Math.max(1, Math.min(4, concurrency));\<close>
\<close>

record ChatBulkOptions =
  enabled_opt :: "bool option"
  stealth_opt :: "bool option"
  concurrency_opt :: "int option"
  staggerMs_opt :: "int option"
  maxMenuWaitMs_opt :: "int option"
  maxDialogWaitMs_opt :: "int option"
  clickRetries_opt :: "int option"
  clickRetryDelay_opt :: "int option"
  afterDeleteWaitMs_opt :: "int option"

record opts =
  enabled :: bool
  stealth :: bool
  concurrency :: int
  staggerMs :: int
  maxMenuWaitMs :: int
  maxDialogWaitMs :: int
  clickRetries :: int
  clickRetryDelay :: int
  afterDeleteWaitMs :: int

definition orDefault :: "'a option \<Rightarrow> 'a \<Rightarrow> 'a" where
  "orDefault v d = (case v of Some x \<Rightarrow> x | None \<Rightarrow> d)"

definition noOptions :: ChatBulkOptions where
  \<comment> \<open>the empty options object \<^verbatim>\<open>{}\<close>\<close>
  "noOptions = \<lparr> enabled_opt = None, stealth_opt = None, concurrency_opt = None,
     staggerMs_opt = None, maxMenuWaitMs_opt = None, maxDialogWaitMs_opt = None,
     clickRetries_opt = None, clickRetryDelay_opt = None, afterDeleteWaitMs_opt = None \<rparr>"

definition newChatBulkUI :: "ChatBulkOptions \<Rightarrow> opts" where
  "newChatBulkUI options =
     \<lparr> enabled = orDefault (enabled_opt options) True,
       stealth = orDefault (stealth_opt options) True,
       concurrency = max 1 (min 4 (orDefault (concurrency_opt options) 2)),
       staggerMs = orDefault (staggerMs_opt options) 50,
       maxMenuWaitMs = orDefault (maxMenuWaitMs_opt options) 3500,
       maxDialogWaitMs = orDefault (maxDialogWaitMs_opt options) 7000,
       clickRetries = orDefault (clickRetries_opt options) 8,
       clickRetryDelay = orDefault (clickRetryDelay_opt options) 140,
       afterDeleteWaitMs = orDefault (afterDeleteWaitMs_opt options) 140 \<rparr>"

section \<open>The host page\<close>

text \<open>
  The engine drives a page it does not own.  The page is a state \<open>'w\<close> of which nothing
  is known but what the engine can observe (queries, properties, the clock) and how it
  reacts to what the engine does to it (timers, events, scrolling).  Elements are handles;
  their properties are read from the current state, as the live DOM objects are.
\<close>

type_synonym elem = nat

datatype selector =
    SelNav                    \<comment> \<open>\<^verbatim>\<open>[data-testid="nav"]\<close>\<close>
  | SelChatRow                \<comment> \<open>\<^verbatim>\<open>a.group.__menu-item.hoverable[href*="/c/"]\<close>\<close>
  | SelCheckbox               \<comment> \<open>\<^verbatim>\<open>.cbm-checkbox\<close>\<close>
  | SelOverlayViewport        \<comment> \<open>\<^verbatim>\<open>[data-overlaysscrollbars-viewport]\<close>\<close>
  | SelOverlay                \<comment> \<open>\<^verbatim>\<open>[data-overlaysscrollbars]\<close>\<close>
  | SelNewChatButton          \<comment> \<open>\<^verbatim>\<open>[data-testid="new-chat-button"]\<close>\<close>
  | SelOptionsTestid          \<comment> \<open>\<^verbatim>\<open>button.__menu-item-trailing-btn[data-testid$="options"]\<close>\<close>
  | SelTrailingBtn            \<comment> \<open>\<^verbatim>\<open>.trailing .__menu-item-trailing-btn\<close>\<close>
  | SelHasPopupMenu           \<comment> \<open>\<^verbatim>\<open>button[aria-haspopup="menu"]\<close>\<close>
  | SelButton                 \<comment> \<open>\<^verbatim>\<open>button\<close>\<close>
  | SelDeleteTestid           \<comment> \<open>\<^verbatim>\<open>div[data-testid="delete-chat-menu-item"]\<close>\<close>
  | SelMenuEntries            \<comment> \<open>\<^verbatim>\<open>[role="menu"] [role="menuitem"], [role="menu"] button\<close>\<close>
  | SelConfirmTestid          \<comment> \<open>\<^verbatim>\<open>[data-testid="delete-conversation-confirm-button"]\<close>\<close>
  | SelDialog                 \<comment> \<open>\<^verbatim>\<open>[role="dialog"],[role="alertdialog"]\<close>\<close>
  | SelDangerButton           \<comment> \<open>\<^verbatim>\<open>button.btn-danger\<close>\<close>
  | SelSecondaryOrButton      \<comment> \<open>\<^verbatim>\<open>button.btn-secondary,button\<close>\<close>
  | SelMenuLabelledBy string  \<comment> \<open>\<^verbatim>\<open>[role="menu"][aria-labelledby="<id>"]\<close>\<close>
  | SelOpenMenu               \<comment> \<open>\<^verbatim>\<open>[role="menu"][data-state="open"]\<close>\<close>

datatype scope = Document | Within elem

datatype evclass = PointerEv | MouseEv

record event =
  ev_class :: evclass
  ev_type :: string
  ev_x :: rat
  ev_y :: rat
  ev_buttons :: nat

record rect =
  r_left :: rat
  r_top :: rat
  r_bottom :: rat
  r_width :: rat
  r_height :: rat

datatype effect =
    TimerFired int            \<comment> \<open>\<^verbatim>\<open>setTimeout(cb, ms)\<close>: the page at the moment \<^verbatim>\<open>cb\<close> runs\<close>
  | IdleFired int             \<comment> \<open>\<^verbatim>\<open>requestIdleCallback(cb, {timeout: ms})\<close>, or the timer that replaces it\<close>
  | Dispatched elem event     \<comment> \<open>\<^verbatim>\<open>target.dispatchEvent(new ...Event(type, init))\<close>\<close>
  | EscapeKey                 \<comment> \<open>\<^verbatim>\<open>document.dispatchEvent(new KeyboardEvent('keydown', {key: 'Escape'}))\<close>\<close>
  | NativeClick elem          \<comment> \<open>\<^verbatim>\<open>el.click()\<close>\<close>
  | Focused elem              \<comment> \<open>\<^verbatim>\<open>target.focus()\<close>\<close>
  | ScrolledIntoView elem     \<comment> \<open>\<^verbatim>\<open>el.scrollIntoView({block: 'center', inline: 'nearest'})\<close>\<close>
  | ScrolledBy elem rat       \<comment> \<open>\<^verbatim>\<open>scrollable.scrollBy({top: delta})\<close>\<close>
  | IdAssigned elem string    \<comment> \<open>\<^verbatim>\<open>btn.id = ...\<close>\<close>
  | Unchecked elem            \<comment> \<open>\<^verbatim>\<open>cb.checked = false\<close>\<close>
  | CheckboxInserted elem     \<comment> \<open>a row is given its checkbox and the class \<^verbatim>\<open>cbm-row\<close>\<close>
  | PushedRoot                \<comment> \<open>\<^verbatim>\<open>history.pushState(null, '', '/')\<close> and the \<^verbatim>\<open>popstate\<close> event\<close>
  | AssignedRoot              \<comment> \<open>\<^verbatim>\<open>location.assign('/')\<close>\<close>

record 'w host =
  perfNow :: "'w \<Rightarrow> int"                                \<comment> \<open>\<^verbatim>\<open>performance.now()\<close>, in milliseconds\<close>
  react :: "effect \<Rightarrow> 'w \<Rightarrow> 'w"                        \<comment> \<open>the page after the engine did this\<close>
  raises :: "effect \<Rightarrow> 'w \<Rightarrow> bool"                     \<comment> \<open>doing this throws (and changes nothing)\<close>
  querySelectorAll :: "scope \<Rightarrow> selector \<Rightarrow> 'w \<Rightarrow> elem list"
  closest :: "elem \<Rightarrow> selector \<Rightarrow> 'w \<Rightarrow> elem option"
  hrefProp :: "elem \<Rightarrow> 'w \<Rightarrow> string"                    \<comment> \<open>\<^verbatim>\<open>a.href\<close>\<close>
  hrefAttr :: "elem \<Rightarrow> 'w \<Rightarrow> string option"             \<comment> \<open>\<^verbatim>\<open>row.getAttribute('href')\<close>\<close>
  idProp :: "elem \<Rightarrow> 'w \<Rightarrow> string"                      \<comment> \<open>\<^verbatim>\<open>btn.id\<close>\<close>
  saysDelete :: "elem \<Rightarrow> 'w \<Rightarrow> bool"                    \<comment> \<open>the delete pattern (either language, any case) \<^verbatim>\<open>.test(n.textContent || '')\<close>\<close>
  boundingRect :: "elem \<Rightarrow> 'w \<Rightarrow> rect"                  \<comment> \<open>\<^verbatim>\<open>el.getBoundingClientRect()\<close>\<close>
  innerWidth :: "'w \<Rightarrow> rat"
  innerHeight :: "'w \<Rightarrow> rat"
  clientHeight :: "'w \<Rightarrow> rat"                            \<comment> \<open>\<^verbatim>\<open>document.documentElement.clientHeight\<close>\<close>
  elementFromPoint :: "rat \<Rightarrow> rat \<Rightarrow> 'w \<Rightarrow> elem option"  \<comment> \<open>\<open>None\<close>: \<^verbatim>\<open>null\<close>, or the call threw\<close>
  containsNode :: "elem \<Rightarrow> elem \<Rightarrow> 'w \<Rightarrow> bool"          \<comment> \<open>\<^verbatim>\<open>el.contains(other)\<close>\<close>
  canDispatch :: "elem \<Rightarrow> 'w \<Rightarrow> bool"                   \<comment> \<open>\<^verbatim>\<open>typeof el.dispatchEvent === 'function'\<close>\<close>
  canFocus :: "elem \<Rightarrow> 'w \<Rightarrow> bool"                      \<comment> \<open>\<^verbatim>\<open>typeof target.focus === 'function'\<close>\<close>
  canScrollBy :: "elem \<Rightarrow> 'w \<Rightarrow> bool"                   \<comment> \<open>\<^verbatim>\<open>scrollable?.scrollBy\<close>\<close>
  scrollingElement :: "'w \<Rightarrow> elem option"                \<comment> \<open>\<^verbatim>\<open>document.scrollingElement\<close>\<close>
  documentElement :: "'w \<Rightarrow> elem"
  randomSuffix :: "'w \<Rightarrow> string"                         \<comment> \<open>\<^verbatim>\<open>Math.random().toString(36).slice(2)\<close>\<close>
  locationHref :: "'w \<Rightarrow> string"

definition querySelector :: "'w host \<Rightarrow> scope \<Rightarrow> selector \<Rightarrow> 'w \<Rightarrow> elem option" where
  \<comment> \<open>the first element of \<open>querySelectorAll\<close>, in document order\<close>
  "querySelector h sc sel w = (case querySelectorAll h sc sel w of [] \<Rightarrow> None | e # _ \<Rightarrow> Some e)"

fun firstSome :: "'a option list \<Rightarrow> 'a option" where
  \<comment> \<open>\<^verbatim>\<open>a || b || ... || null\<close> over element results\<close>
  "firstSome [] = None"
| "firstSome (Some x # _) = Some x"
| "firstSome (None # rest) = firstSome rest"

definition findSidebar :: "'w host \<Rightarrow> 'w \<Rightarrow> elem option" where
  "findSidebar h w = querySelector h Document SelNav w"

definition rowScope :: "'w host \<Rightarrow> 'w \<Rightarrow> scope" where
  \<comment> \<open>\<^verbatim>\<open>this.findSidebar() || document\<close>\<close>
  "rowScope h w = (case findSidebar h w of Some nav \<Rightarrow> Within nav | None \<Rightarrow> Document)"

text \<open>
  \<^verbatim>\<open>
  findRowByHref(href) {
      const targetPath = this.normalizePath(href);
      const scope = this.findSidebar() || document;
      const all = scope.querySelectorAll('a.group.__menu-item.hoverable[href*="/c/"]');
      for (const a of all) {
          try {
              if (this.normalizePath(a.href) === targetPath) return a;
          } catch {}
      }
      return null;
  }
  \<close>
\<close>

definition findRowByHref :: "'w host \<Rightarrow> string \<Rightarrow> 'w \<Rightarrow> elem option" where
  "findRowByHref h href w =
     (let targetPath = normalizePath href;
          all = querySelectorAll h (rowScope h w) SelChatRow w
      in find (\<lambda>a. normalizePath (hrefProp h a w) = targetPath) all)"

definition findOptionsButton :: "'w host \<Rightarrow> elem option \<Rightarrow> 'w \<Rightarrow> elem option" where
  "findOptionsButton h row w =
     (case row of
        None \<Rightarrow> None
      | Some r \<Rightarrow>
          firstSome
            [querySelector h (Within r) SelOptionsTestid w,
             querySelector h (Within r) SelTrailingBtn w,
             querySelector h (Within r) SelHasPopupMenu w,
             (case querySelectorAll h (Within r) SelButton w of [] \<Rightarrow> None | bs \<Rightarrow> Some (last bs))])"

definition findDeleteMenuItem :: "'w host \<Rightarrow> 'w \<Rightarrow> elem option" where
  "findDeleteMenuItem h w =
     firstSome
       [querySelector h Document SelDeleteTestid w,
        find (\<lambda>n. saysDelete h n w) (querySelectorAll h Document SelMenuEntries w)]"

definition findConfirmButton :: "'w host \<Rightarrow> 'w \<Rightarrow> elem option" where
  "findConfirmButton h w =
     firstSome
       [querySelector h Document SelConfirmTestid w,
        find (\<lambda>b. saysDelete h b w)
          (case querySelector h Document SelDialog w of
             Some d \<Rightarrow> querySelectorAll h (Within d) SelButton w
           | None \<Rightarrow> []),
        querySelector h Document SelDangerButton w]"

section \<open>Interaction primitives\<close>

datatype error = E_ROW | E_BTN | E_MENU | E_MENUITEM | E_CONFIRM | Timeout | DomException

datatype 'a settled = Resolved 'a | Rejected error

text \<open>
  An asynchronous method is a function from the page at the call to how its promise
  settles and the page at that moment; \<open>None\<close> is a promise that never settles.
\<close>

type_synonym ('a, 'w) async = "'w \<Rightarrow> ('a settled \<times> 'w) option"

definition resolve :: "'a \<Rightarrow> ('a, 'w) async" where
  "resolve v w = Some (Resolved v, w)"

definition reject :: "error \<Rightarrow> ('a, 'w) async" where
  "reject e w = Some (Rejected e, w)"

definition andThen :: "('a, 'w) async \<Rightarrow> ('a \<Rightarrow> ('b, 'w) async) \<Rightarrow> ('b, 'w) async" where
  \<comment> \<open>\<^verbatim>\<open>const v = await m; ...\<close>: a rejection is thrown on and ends the method\<close>
  "andThen m f w =
     (case m w of
        None \<Rightarrow> None
      | Some (Rejected e, w') \<Rightarrow> Some (Rejected e, w')
      | Some (Resolved v, w') \<Rightarrow> f v w')"

definition catchNull :: "('a, 'w) async \<Rightarrow> ('a option, 'w) async" where
  \<comment> \<open>\<^verbatim>\<open>m.catch(() => null)\<close>\<close>
  "catchNull m w =
     (case m w of
        None \<Rightarrow> None
      | Some (Rejected e, w') \<Rightarrow> Some (Resolved None, w')
      | Some (Resolved v, w') \<Rightarrow> Some (Resolved (Some v), w'))"

definition always :: "('w \<Rightarrow> 'w) \<Rightarrow> (unit, 'w) async" where
  \<comment> \<open>a method that cannot throw and always returns\<close>
  "always f w = Some (Resolved (), f w)"

definition sleep :: "'w host \<Rightarrow> int \<Rightarrow> 'w \<Rightarrow> 'w" where
  \<comment> \<open>\<^verbatim>\<open>sleep(ms) { return new Promise(r => setTimeout(r, ms)); }\<close>\<close>
  "sleep h ms w = react h (TimerFired ms) w"

definition idleOrSleep :: "'w host \<Rightarrow> int \<Rightarrow> 'w \<Rightarrow> 'w" where
  \<comment> \<open>resolved from an idle callback with the time-out \<open>ms\<close>, or from a timer where the
      page has no idle callbacks\<close>
  "idleOrSleep h ms w = react h (IdleFired ms) w"

text \<open>
  \<^verbatim>\<open>
  waitFor(fn, timeout = 2000, step = 45) {
      return new Promise((resolve, reject) => {
          const t0 = performance.now();
          const loop = () => {
              let res = null;
              try { res = fn(); } catch {}
              if (res) return resolve(res);
              if (performance.now() - t0 > timeout) return reject(new Error(...));
              setTimeout(loop, step);
          };
          loop();
      });
  }
  \<close>
  The predicate \<open>fn\<close> reads the page; \<open>None\<close> is a falsy result or an exception.  The loop
  need not end (a clock that stands still), so it is a partial function.  Besides the
  outcome it returns how many times the predicate was evaluated.
\<close>

partial_function (option) waitFor_loop ::
  "'w host \<Rightarrow> ('w \<Rightarrow> 'a option) \<Rightarrow> int \<Rightarrow> int \<Rightarrow> int \<Rightarrow> nat \<Rightarrow> 'w \<Rightarrow> ('a settled \<times> nat \<times> 'w) option"
where
  "waitFor_loop h fn t0 timeout step polls w =
     (case fn w of
        Some res \<Rightarrow> Some (Resolved res, Suc polls, w)
      | None \<Rightarrow>
          if perfNow h w - t0 > timeout then Some (Rejected Timeout, Suc polls, w)
          else waitFor_loop h fn t0 timeout step (Suc polls) (react h (TimerFired step) w))"

definition waitFor_polls ::
  "'w host \<Rightarrow> ('w \<Rightarrow> 'a option) \<Rightarrow> int \<Rightarrow> int \<Rightarrow> 'w \<Rightarrow> ('a settled \<times> nat \<times> 'w) option" where
  "waitFor_polls h fn timeout step w = waitFor_loop h fn (perfNow h w) timeout step 0 w"

definition waitFor :: "'w host \<Rightarrow> ('w \<Rightarrow> 'a option) \<Rightarrow> int \<Rightarrow> int \<Rightarrow> ('a, 'w) async" where
  "waitFor h fn timeout step w =
     (case waitFor_polls h fn timeout step w of
        None \<Rightarrow> None
      | Some (r, polls, w') \<Rightarrow> Some (r, w'))"

definition defaultStep :: int where
  "defaultStep = 45"

text \<open>
  \<^verbatim>\<open>
  async scrollIntoViewSmart(el) {
      if (!el) return;
      const sidebar = this.findSidebar();
      const scrollable = sidebar?.querySelector('[data-overlaysscrollbars-viewport]') ||
          sidebar?.querySelector('[data-overlaysscrollbars]') ||
          sidebar || document.scrollingElement || document.documentElement;
      const r = el.getBoundingClientRect();
      const vh = window.innerHeight || document.documentElement.clientHeight;
      if (r.top < 60 || r.bottom > vh - 60) {
          el.scrollIntoView({ block: 'center', inline: 'nearest' });
          if (scrollable?.scrollBy) {
              const rr = el.getBoundingClientRect();
              const delta = rr.top - vh / 2;
              scrollable.scrollBy({ top: delta });
          }
          await this.sleep(24);
      }
  }
  \<close>
\<close>

definition findScrollable :: "'w host \<Rightarrow> 'w \<Rightarrow> elem" where
  "findScrollable h w =
     (case firstSome
        [case findSidebar h w of Some s \<Rightarrow> querySelector h (Within s) SelOverlayViewport w | None \<Rightarrow> None,
         case findSidebar h w of Some s \<Rightarrow> querySelector h (Within s) SelOverlay w | None \<Rightarrow> None,
         findSidebar h w,
         scrollingElement h w] of
        Some e \<Rightarrow> e
      | None \<Rightarrow> documentElement h w)"

definition scrollIntoViewSmart :: "'w host \<Rightarrow> elem option \<Rightarrow> 'w \<Rightarrow> 'w" where
  "scrollIntoViewSmart h el0 w =
     (case el0 of
        None \<Rightarrow> w
      | Some el \<Rightarrow>
          let scrollable = findScrollable h w;
              r = boundingRect h el w;
              vh = (if innerHeight h w = 0 then clientHeight h w else innerHeight h w)
          in if r_top r < 60 \<or> r_bottom r > vh - 60
             then (let w1 = react h (ScrolledIntoView el) w;
                       w2 = (if canScrollBy h scrollable w1
                             then react h (ScrolledBy scrollable (r_top (boundingRect h el w1) - vh / 2)) w1
                             else w1)
                   in sleep h 24 w2)
             else w)"

text \<open>
  \<open>realClick\<close> never throws: whatever goes wrong while the synthetic events are built or
  dispatched ends in the native \<^verbatim>\<open>el.click()\<close>, itself inside \<^verbatim>\<open>try { } catch {}\<close>.
\<close>

definition domClick :: "'w host \<Rightarrow> elem \<Rightarrow> 'w \<Rightarrow> 'w" where
  \<comment> \<open>\<^verbatim>\<open>const domClick = () => { try { el.click?.(); } catch {} };\<close>\<close>
  "domClick h el w = (if raises h (NativeClick el) w then w else react h (NativeClick el) w)"

definition clamp :: "rat \<Rightarrow> rat \<Rightarrow> rat \<Rightarrow> rat" where
  \<comment> \<open>\<^verbatim>\<open>const clamp = (v, min, max) => Math.min(max, Math.max(min, v));\<close>\<close>
  "clamp v lo hi = min hi (max lo v)"

datatype click_step = Ev event | FocusIfPossible

definition mk :: "string \<Rightarrow> rat \<Rightarrow> rat \<Rightarrow> nat \<Rightarrow> click_step" where
  "mk ty cx cy b = Ev \<lparr> ev_class = MouseEv, ev_type = ty, ev_x = cx, ev_y = cy, ev_buttons = b \<rparr>"

definition pe :: "string \<Rightarrow> rat \<Rightarrow> rat \<Rightarrow> nat \<Rightarrow> click_step" where
  "pe ty cx cy b = Ev \<lparr> ev_class = PointerEv, ev_type = ty, ev_x = cx, ev_y = cy, ev_buttons = b \<rparr>"

definition clickSequence :: "rat \<Rightarrow> rat \<Rightarrow> click_step list" where
  "clickSequence cx cy =
     [pe ''pointerover'' cx cy 1, mk ''mouseover'' cx cy 1,
      pe ''pointerenter'' cx cy 1, mk ''mouseenter'' cx cy 1,
      pe ''pointerdown'' cx cy 1, mk ''mousedown'' cx cy 1,
      FocusIfPossible,
      pe ''pointerup'' cx cy 0, mk ''mouseup'' cx cy 0, mk ''click'' cx cy 0]"

fun dispatchAll :: "'w host \<Rightarrow> elem \<Rightarrow> click_step list \<Rightarrow> 'w \<Rightarrow> bool \<times> 'w" where
  \<comment> \<open>the statements of a \<^verbatim>\<open>try\<close> block in order; \<open>False\<close> when one of them threw\<close>
  "dispatchAll h target [] w = (True, w)"
| "dispatchAll h target (Ev ev # rest) w =
     (if raises h (Dispatched target ev) w then (False, w)
      else dispatchAll h target rest (react h (Dispatched target ev) w))"
| "dispatchAll h target (FocusIfPossible # rest) w =
     (if canFocus h target w
      then (if raises h (Focused target) w then (False, w)
            else dispatchAll h target rest (react h (Focused target) w))
      else dispatchAll h target rest w)"

definition realClick :: "'w host \<Rightarrow> elem option \<Rightarrow> 'w \<Rightarrow> 'w" where
  "realClick h el0 w =
     (case el0 of
        None \<Rightarrow> w
      | Some el \<Rightarrow>
          if \<not> canDispatch h el w then domClick h el w
          else
            let w1 = scrollIntoViewSmart h (Some el) w;
                rc = boundingRect h el w1
            in if r_width rc = 0 \<or> r_height rc = 0 then domClick h el w1
               else
                 let cx = clamp (r_left rc + min (r_width rc - 2) (max 2 (r_width rc / 2))) 0
                            ((if innerWidth h w1 = 0 then 1 else innerWidth h w1) - 1);
                     cy = clamp (r_top rc + min (r_height rc - 2) (max 2 (r_height rc / 2))) 0
                            ((if innerHeight h w1 = 0 then 1 else innerHeight h w1) - 1);
                     target = (case elementFromPoint h cx cy w1 of
                                 Some t \<Rightarrow> if containsNode h el t w1 then t else el
                               | None \<Rightarrow> el);
                     res = dispatchAll h target (clickSequence cx cy) w1
                 in if fst res then snd res else domClick h el (snd res))"

definition hoverEvents :: "click_step list" where
  "hoverEvents = [mk ''pointerover'' 0 0 0, mk ''mouseover'' 0 0 0, mk ''mouseenter'' 0 0 0]"

definition hover :: "'w host \<Rightarrow> elem option \<Rightarrow> (unit, 'w) async" where
  \<comment> \<open>the three events are dispatched outside any \<^verbatim>\<open>try\<close>: an exception leaves the method\<close>
  "hover h el0 w =
     (case el0 of
        None \<Rightarrow> Some (Resolved (), w)
      | Some el \<Rightarrow>
          let res = dispatchAll h el hoverEvents w
          in if fst res then Some (Resolved (), snd res) else Some (Rejected DomException, snd res))"

definition safeCloseMenus :: "'w host \<Rightarrow> 'w \<Rightarrow> 'w" where
  "safeCloseMenus h w =
     (let w1 = (case querySelector h Document SelOpenMenu w of
                  Some m \<Rightarrow> react h EscapeKey w
                | None \<Rightarrow> w)
      in case querySelector h Document SelConfirmTestid w1 of
           None \<Rightarrow> w1
         | Some dialogBtn \<Rightarrow>
             (case closest h dialogBtn SelDialog w1 of
                None \<Rightarrow> w1
              | Some dlg \<Rightarrow>
                  (case querySelector h (Within dlg) SelSecondaryOrButton w1 of
                     None \<Rightarrow> w1
                   | Some cancel \<Rightarrow> react h (NativeClick cancel) w1)))"

section \<open>The per-item deletion\<close>

text \<open>
  \<^verbatim>\<open>
  async openMenu(btn) {
      const id = btn.id || (btn.id = `cbm-btn-${Math.random().toString(36).slice(2)}`);
      for (let i = 0; i < this.clickRetries; i++) {
          await this.scrollIntoViewSmart(btn);
          await this.realClick(btn);
          try {
              const menu = await this.waitFor(
                  () =>
                      document.querySelector(`[role="menu"][aria-labelledby="${CSS.escape(id)}"]`) ||
                      document.querySelector('[role="menu"][data-state="open"]'),
                  250
              );
              if (menu) return;
          } catch {}
          await this.sleep(this.clickRetryDelay);
      }
      const any = document.querySelector('[role="menu"][data-state="open"]');
      if (any) return;
      throw new Error('... (E_MENU)');
  }
  \<close>
  The model also records, in order, the calls the method makes on the engine.
\<close>

definition menuProbe :: "'w host \<Rightarrow> string \<Rightarrow> 'w \<Rightarrow> elem option" where
  "menuProbe h ident w =
     firstSome
       [querySelector h Document (SelMenuLabelledBy ident) w,
        querySelector h Document SelOpenMenu w]"

datatype call =
    CallScroll elem               \<comment> \<open>\<^verbatim>\<open>await this.scrollIntoViewSmart(btn)\<close>\<close>
  | CallClick elem                \<comment> \<open>\<^verbatim>\<open>await this.realClick(btn)\<close>\<close>
  | CallWaitMenu string int bool  \<comment> \<open>\<^verbatim>\<open>await this.waitFor(<menu for id, or any open menu>, timeout)\<close>, and whether it resolved\<close>
  | CallSleep int                 \<comment> \<open>\<^verbatim>\<open>await this.sleep(ms)\<close>\<close>

definition failedAttempt :: "opts \<Rightarrow> elem \<Rightarrow> string \<Rightarrow> call list" where
  "failedAttempt cfg btn ident =
     [CallScroll btn, CallClick btn, CallWaitMenu ident 250 False, CallSleep (clickRetryDelay cfg)]"

definition successfulAttempt :: "elem \<Rightarrow> string \<Rightarrow> call list" where
  "successfulAttempt btn ident = [CallScroll btn, CallClick btn, CallWaitMenu ident 250 True]"

fun openMenu_loop ::
  "'w host \<Rightarrow> opts \<Rightarrow> elem \<Rightarrow> string \<Rightarrow> nat \<Rightarrow> call list \<Rightarrow> 'w \<Rightarrow> (bool \<times> call list \<times> 'w) option" where
  \<comment> \<open>the \<^verbatim>\<open>for\<close> loop with \<open>n\<close> iterations left; \<open>True\<close>: left by \<^verbatim>\<open>return\<close>\<close>
  "openMenu_loop h cfg btn ident 0 calls w = Some (False, calls, w)"
| "openMenu_loop h cfg btn ident (Suc n) calls w =
     (let w1 = scrollIntoViewSmart h (Some btn) w;
          w2 = realClick h (Some btn) w1
      in case waitFor h (menuProbe h ident) 250 defaultStep w2 of
           None \<Rightarrow> None
         | Some (Resolved menu, w3) \<Rightarrow> Some (True, calls @ successfulAttempt btn ident, w3)
         | Some (Rejected e, w3) \<Rightarrow>
             openMenu_loop h cfg btn ident n (calls @ failedAttempt cfg btn ident)
               (sleep h (clickRetryDelay cfg) w3))"

definition buttonId :: "'w host \<Rightarrow> elem \<Rightarrow> 'w \<Rightarrow> string" where
  "buttonId h btn w = (if idProp h btn w = [] then ''cbm-btn-'' @ randomSuffix h w else idProp h btn w)"

definition openMenu_calls ::
  "'w host \<Rightarrow> opts \<Rightarrow> elem \<Rightarrow> 'w \<Rightarrow> (unit settled \<times> call list \<times> 'w) option" where
  "openMenu_calls h cfg btn w =
     (let ident = buttonId h btn w;
          w0 = (if idProp h btn w = [] then react h (IdAssigned btn ident) w else w)
      in case openMenu_loop h cfg btn ident (nat (clickRetries cfg)) [] w0 of
           None \<Rightarrow> None
         | Some (returned, calls, w1) \<Rightarrow>
             if returned then Some (Resolved (), calls, w1)
             else (case querySelector h Document SelOpenMenu w1 of
                     Some any \<Rightarrow> Some (Resolved (), calls, w1)
                   | None \<Rightarrow> Some (Rejected E_MENU, calls, w1)))"

definition openMenu :: "'w host \<Rightarrow> opts \<Rightarrow> elem \<Rightarrow> (unit, 'w) async" where
  "openMenu h cfg btn w =
     (case openMenu_calls h cfg btn w of
        None \<Rightarrow> None
      | Some (r, calls, w') \<Rightarrow> Some (r, w'))"

text \<open>
  What a recorded call does to the page: each label stands for the operation named beside
  it, and a recorded wait also says whether it resolved.  A list of calls that the page
  does not bear out (a wait recorded as resolved that timed out, or the converse) has no
  resulting page.
\<close>

fun perform :: "'w host \<Rightarrow> call \<Rightarrow> 'w \<Rightarrow> 'w option" where
  "perform h (CallScroll el) w = Some (scrollIntoViewSmart h (Some el) w)"
| "perform h (CallClick el) w = Some (realClick h (Some el) w)"
| "perform h (CallWaitMenu ident ms ok) w =
     (case waitFor h (menuProbe h ident) ms defaultStep w of
        None \<Rightarrow> None
      | Some (Resolved menu, w') \<Rightarrow> if ok then Some w' else None
      | Some (Rejected e, w') \<Rightarrow> if ok then None else Some w')"
| "perform h (CallSleep ms) w = Some (sleep h ms w)"

fun performAll :: "'w host \<Rightarrow> call list \<Rightarrow> 'w \<Rightarrow> 'w option" where
  "performAll h [] w = Some w"
| "performAll h (c # cs) w =
     (case perform h c w of
        None \<Rightarrow> None
      | Some w' \<Rightarrow> performAll h cs w')"

text \<open>
  The attempts of the specification, written on the page and not on the loop.  In an
  attempt the trigger is scrolled into view: when it lies within 60 pixels of the top or
  the bottom of the window the page receives \<^verbatim>\<open>scrollIntoView\<close>, the correction
  of the scrollable container where it can scroll, and a timer of 24 ms.  Then the trigger
  is clicked, and the page is polled during 250 ms for the menu labelled by the trigger's
  id, or any open menu.  \<open>failedAttempts \<dots> k w\<close> is the page after \<open>k\<close>
  attempts from \<open>w\<close> whose waits all timed out, each followed by a timer of
  \<open>clickRetryDelay\<close>; there is none when one of these waits resolves.
\<close>

definition reScroll :: "'w host \<Rightarrow> elem \<Rightarrow> 'w \<Rightarrow> 'w" where
  "reScroll h el w =
     (let vh = (if innerHeight h w = 0 then clientHeight h w else innerHeight h w)
      in if r_top (boundingRect h el w) < 60 \<or> vh - 60 < r_bottom (boundingRect h el w)
         then (let w1 = react h (ScrolledIntoView el) w;
                   w2 = (if canScrollBy h (findScrollable h w) w1
                         then react h (ScrolledBy (findScrollable h w)
                                         (r_top (boundingRect h el w1) - vh / 2)) w1
                         else w1)
               in react h (TimerFired 24) w2)
         else w)"

definition attempt :: "'w host \<Rightarrow> elem \<Rightarrow> string \<Rightarrow> (elem, 'w) async" where
  "attempt h btn ident w =
     waitFor h (menuProbe h ident) 250 defaultStep (realClick h (Some btn) (reScroll h btn w))"

fun failedAttempts :: "'w host \<Rightarrow> opts \<Rightarrow> elem \<Rightarrow> string \<Rightarrow> nat \<Rightarrow> 'w \<Rightarrow> 'w option" where
  "failedAttempts h cfg btn ident 0 w = Some w"
| "failedAttempts h cfg btn ident (Suc k) w =
     (case attempt h btn ident w of
        None \<Rightarrow> None
      | Some (Resolved menu, u) \<Rightarrow> None
      | Some (Rejected e, u) \<Rightarrow>
          failedAttempts h cfg btn ident k (react h (TimerFired (clickRetryDelay cfg)) u))"

text \<open>
  \<^verbatim>\<open>
  async deleteViaUI(href) {
      const row = await this.waitFor(() => this.findRowByHref(href), 3000).catch(() => null);
      if (!row) { throw new Error('... (E_ROW)'); }
      const btn = await this.waitFor(() => this.findOptionsButton(row), 1500).catch(() => null);
      if (!btn) { throw new Error('... (E_BTN)'); }
      await this.scrollIntoViewSmart(row);
      this.hover(row);
      await this.openMenu(btn);
      const del = await this.waitFor(() => this.findDeleteMenuItem(), this.maxMenuWaitMs).catch(() => null);
      if (!del) { throw new Error('... (E_MENUITEM)'); }
      await this.realClick(del);
      const confirm = await this.waitFor(() => this.findConfirmButton(), this.maxDialogWaitMs).catch(() => null);
      if (!confirm) { throw new Error('... (E_CONFIRM)'); }
      await this.realClick(confirm);

      await this.waitFor(() => !this.findRowByHref(href), 8000);
      await this.sleep(this.afterDeleteWaitMs);
      this.safeCloseMenus();
  }
  \<close>
  The method is split where the confirmation has been clicked: what follows is the wait
  for the row to disappear, the settle delay and the closing of stray menus.
\<close>

definition orThrow :: "error \<Rightarrow> 'a option \<Rightarrow> ('a, 'w) async" where
  \<comment> \<open>\<^verbatim>\<open>if (!x) { throw new Error(...); }\<close>\<close>
  "orThrow e x = (case x of None \<Rightarrow> reject e | Some v \<Rightarrow> resolve v)"

definition deleteViaUI_confirm :: "'w host \<Rightarrow> opts \<Rightarrow> string \<Rightarrow> (unit, 'w) async" where
  "deleteViaUI_confirm h cfg href =
     andThen (catchNull (waitFor h (findRowByHref h href) 3000 defaultStep)) (\<lambda>row0.
     andThen (orThrow E_ROW row0) (\<lambda>row.
     andThen (catchNull (waitFor h (findOptionsButton h (Some row)) 1500 defaultStep)) (\<lambda>btn0.
     andThen (orThrow E_BTN btn0) (\<lambda>btn.
     andThen (always (scrollIntoViewSmart h (Some row))) (\<lambda>_.
     andThen (hover h (Some row)) (\<lambda>_.
     andThen (openMenu h cfg btn) (\<lambda>_.
     andThen (catchNull (waitFor h (findDeleteMenuItem h) (maxMenuWaitMs cfg) defaultStep)) (\<lambda>del0.
     andThen (orThrow E_MENUITEM del0) (\<lambda>del.
     andThen (always (realClick h (Some del))) (\<lambda>_.
     andThen (catchNull (waitFor h (findConfirmButton h) (maxDialogWaitMs cfg) defaultStep)) (\<lambda>confirm0.
     andThen (orThrow E_CONFIRM confirm0) (\<lambda>confirm.
     always (realClick h (Some confirm))))))))))))))"

definition rowGone :: "'w host \<Rightarrow> string \<Rightarrow> 'w \<Rightarrow> bool option" where
  \<comment> \<open>\<^verbatim>\<open>() => !this.findRowByHref(href)\<close>: \<^verbatim>\<open>true\<close> or a falsy value\<close>
  "rowGone h href w = (if findRowByHref h href w = None then Some True else None)"

definition awaitRowGone :: "'w host \<Rightarrow> string \<Rightarrow> (bool, 'w) async" where
  "awaitRowGone h href = waitFor h (rowGone h href) 8000 defaultStep"

definition deleteViaUI :: "'w host \<Rightarrow> opts \<Rightarrow> string \<Rightarrow> (unit, 'w) async" where
  "deleteViaUI h cfg href =
     andThen (deleteViaUI_confirm h cfg href) (\<lambda>_.
     andThen (awaitRowGone h href) (\<lambda>_.
     andThen (always (sleep h (afterDeleteWaitMs cfg))) (\<lambda>_.
     always (safeCloseMenus h))))"

section \<open>The removal engine\<close>

text \<open>
  The engine's own state: the configuration, the selection (a \<^verbatim>\<open>Map\<close> from identifier to
  link, in insertion order) and what it shows on its action bar.  The bar is taken to be
  rendered: the run is started from the bar's own delete button.
\<close>

type_synonym item = "string \<times> string"  \<comment> \<open>\<^verbatim>\<open>{ id, href }\<close>\<close>

datatype status =
    StatusEmpty
  | StatusDeleting nat nat nat   \<comment> \<open>progress text: processed, total, failures (shown when not zero)\<close>
  | StatusDone nat nat nat       \<comment> \<open>summary text: succeeded, total, failures (shown when not zero)\<close>
  | StatusFlash error            \<comment> \<open>the warning sign and the message of the error\<close>

record ui =
  running :: bool                \<comment> \<open>the class \<^verbatim>\<open>running\<close> of the bar\<close>
  loaderHidden :: bool           \<comment> \<open>\<^verbatim>\<open>.cbm-loader\<close> hidden\<close>
  statusShown :: status          \<comment> \<open>\<^verbatim>\<open>.cbm-status\<close>\<close>
  pill :: "(nat \<times> nat) option"   \<comment> \<open>\<^verbatim>\<open>.cbm-progress-pill\<close>: hidden, or processed/total\<close>
  countShown :: nat              \<comment> \<open>\<^verbatim>\<open>.cbm-count\<close>\<close>
  barHidden :: bool              \<comment> \<open>the class \<^verbatim>\<open>cbm-hidden\<close> of the bar\<close>
  delDisabled :: bool
  clearDisabled :: bool
  selectAllDisabled :: bool
  stealthAttr :: bool            \<comment> \<open>\<^verbatim>\<open>data-cbm-stealth\<close> on the document element\<close>

record engine =
  cfg :: opts
  selected :: "item list"
  bar :: ui

definition updateBar :: "engine \<Rightarrow> engine" where
  "updateBar e =
     (let n = length (selected e); r = running (bar e) in
      e\<lparr> bar := (bar e)\<lparr> countShown := n,
                          barHidden := \<not> (r \<or> n > 0),
                          delDisabled := (\<not> enabled (cfg e) \<or> n = 0 \<or> r),
                          clearDisabled := (n = 0 \<or> r),
                          selectAllDisabled := r \<rparr> \<rparr>)"

definition showLoader :: "bool \<Rightarrow> engine \<Rightarrow> engine" where
  "showLoader shown e = e\<lparr> bar := (bar e)\<lparr> loaderHidden := \<not> shown \<rparr> \<rparr>"

definition setStatus :: "status \<Rightarrow> engine \<Rightarrow> engine" where
  "setStatus st e = e\<lparr> bar := (bar e)\<lparr> statusShown := st \<rparr> \<rparr>"

definition setProgress :: "nat \<Rightarrow> nat \<Rightarrow> engine \<Rightarrow> engine" where
  "setProgress proc tot e =
     e\<lparr> bar := (bar e)\<lparr> pill := (if tot = 0 then None else Some (proc, tot)) \<rparr> \<rparr>"

definition flashError :: "error \<Rightarrow> engine \<Rightarrow> engine" where
  \<comment> \<open>the status shows the message; a timer of its own puts the previous text back later\<close>
  "flashError err e = setStatus (StatusFlash err) e"

definition clearDisplay :: "engine \<Rightarrow> engine" where
  \<comment> \<open>the callback the run leaves behind: \<^verbatim>\<open>setTimeout(() => { this.setStatus(''); this.setProgress(0, 0); this.updateBar(); }, 500)\<close>\<close>
  "clearDisplay e = updateBar (setProgress 0 0 (setStatus StatusEmpty e))"

partial_function (option) waitSidebarReady_loop :: "'w host \<Rightarrow> int \<Rightarrow> int \<Rightarrow> 'w \<Rightarrow> 'w option" where
  \<comment> \<open>\<^verbatim>\<open>while (performance.now() - t0 <= timeout) { if (ok()) return; await this.sleep(50); }\<close>\<close>
  "waitSidebarReady_loop h t0 timeout w =
     (if perfNow h w - t0 \<le> timeout
      then (case querySelector h (rowScope h w) SelChatRow w of
              Some row \<Rightarrow> Some w
            | None \<Rightarrow> waitSidebarReady_loop h t0 timeout (sleep h 50 w))
      else Some w)"

definition waitSidebarReady :: "'w host \<Rightarrow> int \<Rightarrow> 'w \<Rightarrow> 'w option" where
  "waitSidebarReady h timeout w = waitSidebarReady_loop h (perfNow h w) timeout w"

definition ensureNotOnSelected :: "'w host \<Rightarrow> item list \<Rightarrow> 'w \<Rightarrow> 'w option" where
  "ensureNotOnSelected h items w =
     (let selectedPaths = set (map (\<lambda>it. normalizePath (snd it)) items);
          here = normalizePath (locationHref h w)
      in if here \<notin> selectedPaths then Some w
         else (case querySelector h Document SelNewChatButton w of
                 Some newBtn \<Rightarrow> waitSidebarReady h 4000 (domClick h newBtn w)
               | None \<Rightarrow>
                   waitSidebarReady h 4000
                     (if raises h PushedRoot w
                      then (if raises h AssignedRoot w then w else react h AssignedRoot w)
                      else react h PushedRoot w)))"

definition attachCheckbox :: "'w host \<Rightarrow> elem \<Rightarrow> 'w \<Rightarrow> 'w" where
  \<comment> \<open>the body of \<^verbatim>\<open>rows.forEach((row) => { ... })\<close> in \<^verbatim>\<open>attachCheckboxes\<close>\<close>
  "attachCheckbox h row w =
     (if querySelector h (Within row) SelCheckbox w \<noteq> None then w
      else if extractIdFromHref (hrefAttr h row w) = None \<or> hrefAttr h row w = None then w
      else react h (CheckboxInserted row) w)"

definition attachCheckboxes :: "'w host \<Rightarrow> opts \<Rightarrow> 'w \<Rightarrow> 'w" where
  "attachCheckboxes h c w =
     (if \<not> enabled c then w
      else fold (attachCheckbox h) (querySelectorAll h (rowScope h w) SelChatRow w) w)"

text \<open>
  \<^verbatim>\<open>
  let i = 0;
  const worker = async () => {
      while (i < items.length) {
          const it = items[i++];
          try {
              await this.deleteViaUI(it.href);
              ok++;
          } catch (e) {
              fail++;
              this.flashError(e?.message || '...');
              this.safeCloseMenus();
          } finally {
              processed++;
              this.selected.delete(it.id);
              const rowLive = this.findRowByHref(it.href);
              const cb = rowLive?.querySelector('.cbm-checkbox');
              if (cb) cb.checked = false;
              this.setStatus(...);
              this.setProgress(processed, total);
              this.updateBar();
              await this.idleOrSleep(this.staggerMs);
          }
      }
  };
  await Promise.all(Array.from({ length: this.concurrency }, () => worker()));
  \<close>
  There is one thread.  A worker runs until it awaits, and is resumed when what it awaits
  has settled; which of the suspended workers is resumed next is the scheduler's choice
  \<open>sched\<close>.  The call \<^verbatim>\<open>this.deleteViaUI(it.href)\<close> a worker awaits is the parameter \<open>del\<close>,
  applied to the page as it is when the worker is resumed and to the number of
  resumptions so far: this covers every way the calls of several workers can interleave
  on the page.  \<open>del\<close> returning \<open>None\<close> is a call that never settles.
\<close>

datatype worker =
    Deleting item   \<comment> \<open>suspended at \<^verbatim>\<open>await this.deleteViaUI(it.href)\<close>\<close>
  | Pausing         \<comment> \<open>suspended at \<^verbatim>\<open>await this.idleOrSleep(this.staggerMs)\<close>\<close>
  | Returned        \<comment> \<open>the loop has ended\<close>

record 'w pool =
  cursor :: nat            \<comment> \<open>\<^verbatim>\<open>i\<close>\<close>
  processed :: nat
  succeeded :: nat         \<comment> \<open>\<^verbatim>\<open>ok\<close>\<close>
  failed :: nat            \<comment> \<open>\<^verbatim>\<open>fail\<close>\<close>
  eng :: engine
  page :: 'w
  workers :: "worker list"
  resumptions :: nat

definition loopHead :: "item list \<Rightarrow> worker \<times> nat \<Rightarrow> worker \<times> nat" where
  \<comment> \<open>\<^verbatim>\<open>while (i < items.length) { const it = items[i++]; ... await this.deleteViaUI(it.href)\<close>:
      the state a worker is suspended in next, and the cursor\<close>
  "loopHead items wc =
     (if snd wc < length items then (Deleting (items ! snd wc), Suc (snd wc)) else (Returned, snd wc))"

definition spawn :: "item list \<Rightarrow> 'w pool \<Rightarrow> 'w pool" where
  \<comment> \<open>one call \<^verbatim>\<open>worker()\<close>: it runs to its first \<^verbatim>\<open>await\<close>\<close>
  "spawn items st =
     (let wc = loopHead items (Pausing, cursor st)
      in st\<lparr> cursor := snd wc, workers := workers st @ [fst wc] \<rparr>)"

definition uncheckRow :: "'w host \<Rightarrow> string \<Rightarrow> 'w \<Rightarrow> 'w" where
  "uncheckRow h href w =
     (case findRowByHref h href w of
        None \<Rightarrow> w
      | Some rowLive \<Rightarrow>
          (case querySelector h (Within rowLive) SelCheckbox w of
             None \<Rightarrow> w
           | Some cb \<Rightarrow> react h (Unchecked cb) w))"

definition settle :: "'w host \<Rightarrow> nat \<Rightarrow> item \<Rightarrow> unit settled \<Rightarrow> 'w pool \<Rightarrow> 'w pool" where
  \<comment> \<open>a worker from the settling of \<^verbatim>\<open>deleteViaUI\<close> to its next \<^verbatim>\<open>await\<close>, the stagger:
      the rest of \<^verbatim>\<open>try\<close>, or \<^verbatim>\<open>catch\<close>, and then \<^verbatim>\<open>finally\<close>\<close>
  "settle h tot it r st =
     (let st1 = (case r of
                   Resolved _ \<Rightarrow> st\<lparr> succeeded := succeeded st + 1 \<rparr>
                 | Rejected e \<Rightarrow>
                     st\<lparr> failed := failed st + 1,
                         eng := flashError e (eng st),
                         page := safeCloseMenus h (page st) \<rparr>);
          st2 = st1\<lparr> processed := processed st1 + 1,
                     eng := (eng st1)\<lparr> selected := AList.delete (fst it) (selected (eng st1)) \<rparr> \<rparr>;
          st3 = st2\<lparr> page := uncheckRow h (snd it) (page st2) \<rparr>
      in st3\<lparr> eng := updateBar (setProgress (processed st3) tot
                   (setStatus (StatusDeleting (processed st3) tot (failed st3)) (eng st3))) \<rparr>)"

definition resume ::
  "'w host \<Rightarrow> (nat \<Rightarrow> string \<Rightarrow> (unit, 'w) async) \<Rightarrow> item list \<Rightarrow> nat \<Rightarrow> 'w pool \<Rightarrow> 'w pool option" where
  \<comment> \<open>worker \<open>k\<close> is resumed and runs to its next \<^verbatim>\<open>await\<close>, or to the end of its loop\<close>
  "resume h del items k st =
     (case workers st ! k of
        Deleting it \<Rightarrow>
          (case del (resumptions st) (snd it) (page st) of
             None \<Rightarrow> None
           | Some (r, w') \<Rightarrow>
               Some ((settle h (length items) it r (st\<lparr> page := w' \<rparr>))
                       \<lparr> workers := (workers st)[k := Pausing] \<rparr>))
      | Pausing \<Rightarrow>
          (let w' = idleOrSleep h (staggerMs (cfg (eng st))) (page st);
               wc = loopHead items (Pausing, cursor st)
           in Some (st\<lparr> page := w', cursor := snd wc, workers := (workers st)[k := fst wc] \<rparr>))
      | Returned \<Rightarrow> Some st)"

definition suspended :: "'w pool \<Rightarrow> nat list" where
  "suspended st = filter (\<lambda>k. workers st ! k \<noteq> Returned) [0..<length (workers st)]"

fun weight :: "worker \<Rightarrow> nat" where
  "weight (Deleting _) = 2"
| "weight Pausing = 1"
| "weight Returned = 0"

definition remaining :: "item list \<Rightarrow> 'w pool \<Rightarrow> nat" where
  \<comment> \<open>an upper bound on the resumptions still to come\<close>
  "remaining items st = 2 * (length items - cursor st) + sum_list (map weight (workers st))"

function drain ::
  "'w host \<Rightarrow> (nat \<Rightarrow> string \<Rightarrow> (unit, 'w) async) \<Rightarrow> (nat \<Rightarrow> nat) \<Rightarrow> item list \<Rightarrow> 'w pool \<Rightarrow> 'w pool option" where
  "drain h del sched items st =
     (if suspended st = [] then Some st
      else (case resume h del items
                   (suspended st ! (sched (resumptions st) mod length (suspended st))) st of
              None \<Rightarrow> None
            | Some st' \<Rightarrow> drain h del sched items (st'\<lparr> resumptions := Suc (resumptions st) \<rparr>)))"
  by pat_completeness auto
termination
proof (relation "measure (\<lambda>(h, del, sched, items, st). remaining items st)")
  show "wf (measure (\<lambda>(h :: 'w host, del :: nat \<Rightarrow> string \<Rightarrow> (unit, 'w) async, sched :: nat \<Rightarrow> nat, items :: item list, st :: 'w pool). remaining items st))"
    by simp
next
  fix h :: "'w host" and del :: "nat \<Rightarrow> string \<Rightarrow> (unit, 'w) async" and sched :: "nat \<Rightarrow> nat"
    and items :: "item list" and st st' :: "'w pool"
  assume ne: "suspended st \<noteq> []"
    and r: "resume h del items (suspended st ! (sched (resumptions st) mod length (suspended st))) st = Some st'"
  define k where "k = suspended st ! (sched (resumptions st) mod length (suspended st))"
  have "k \<in> set (suspended st)"
    unfolding k_def using ne by simp
  then have k: "k < length (workers st)" "workers st ! k \<noteq> Returned"
    by (simp_all add: suspended_def)
  have upd: "\<And>v. sum_list (map weight ((workers st)[k := v])) + weight (workers st ! k)
                 = sum_list (map weight (workers st)) + weight v"
    using k(1) elem_le_sum_list [of k "map weight (workers st)"]
    by (simp add: map_update sum_list_update)
  have "remaining items st' < remaining items st"
  proof (cases "workers st ! k")
    case (Deleting it)
    with r obtain res w' where
      "st' = (settle h (length items) it res (st\<lparr> page := w' \<rparr>))\<lparr> workers := (workers st)[k := Pausing] \<rparr>"
      unfolding k_def [symmetric] by (auto simp: resume_def split: option.splits)
    then have "cursor st' = cursor st" "workers st' = (workers st)[k := Pausing]"
      by (simp_all add: settle_def Let_def split: settled.splits)
    then show ?thesis
      using upd [of Pausing] Deleting by (simp add: remaining_def)
  next
    case Pausing
    with r have "cursor st' = snd (loopHead items (Pausing, cursor st))"
      "workers st' = (workers st)[k := fst (loopHead items (Pausing, cursor st))]"
      unfolding k_def [symmetric] by (auto simp: resume_def Let_def)
    then show ?thesis
      using upd [of "fst (loopHead items (Pausing, cursor st))"] Pausing
      by (auto simp: remaining_def loopHead_def split: if_splits)
  next
    case Returned
    then show ?thesis using k(2) by simp
  qed
  then show "((h, del, sched, items, st'\<lparr> resumptions := Suc (resumptions st) \<rparr>), (h, del, sched, items, st))
              \<in> measure (\<lambda>(h, del, sched, items, st). remaining items st)"
    by (simp add: remaining_def)
qed

text \<open>
  \<^verbatim>\<open>
  async runBulkDelete() {
      if (!this.enabled) return;
      const items = [...this.selected.entries()].map(([id, ctx]) => ({ id, href: ctx.href }));
      if (!items.length) return;
      await this.ensureNotOnSelected(items);
      let processed = 0, ok = 0, fail = 0;
      const total = items.length;
      this.actionBar.classList.add('running');
      this.showLoader(true);
      this.setProgress(processed, total);
      this.setStatus(...);
      this.updateBar();
      if (this.stealth) document.documentElement.setAttribute('data-cbm-stealth', '');
      try {
          ... the workers ...
          this.setStatus(...);
          await this.waitSidebarReady();
          this.attachCheckboxes();
          this.updateBar();
      } finally {
          document.documentElement.removeAttribute('data-cbm-stealth');
          this.showLoader(false);
          this.actionBar.classList.remove('running');
          setTimeout(() => { this.setStatus(''); this.setProgress(0, 0); this.updateBar(); }, 500);
      }
  }
  \<close>
  Besides the engine and the page the model returns the three counters as they stand when
  the run ends (\<open>None\<close> when the method returned before starting a run).  What the
  workers call in \<^verbatim>\<open>catch\<close> and \<^verbatim>\<open>finally\<close> are DOM calls that do not throw, so the only
  way for the \<^verbatim>\<open>try\<close> block not to reach its end is a promise that never settles.
\<close>

record summary =
  sum_total :: nat
  sum_processed :: nat
  sum_succeeded :: nat
  sum_failed :: nat

definition startRun :: "nat \<Rightarrow> engine \<Rightarrow> engine" where
  "startRun tot e =
     (let e1 = e\<lparr> bar := (bar e)\<lparr> running := True \<rparr> \<rparr>;
          e2 = updateBar (setStatus (StatusDeleting 0 tot 0) (setProgress 0 tot (showLoader True e1)))
      in if stealth (cfg e) then e2\<lparr> bar := (bar e2)\<lparr> stealthAttr := True \<rparr> \<rparr> else e2)"

definition finishRun :: "engine \<Rightarrow> engine" where
  \<comment> \<open>the \<^verbatim>\<open>finally\<close> block, but for the timer it starts\<close>
  "finishRun e =
     (let e1 = e\<lparr> bar := (bar e)\<lparr> stealthAttr := False \<rparr> \<rparr>;
          e2 = showLoader False e1
      in e2\<lparr> bar := (bar e2)\<lparr> running := False \<rparr> \<rparr>)"

definition spawnAll :: "item list \<Rightarrow> nat \<Rightarrow> 'w pool \<Rightarrow> 'w pool" where
  \<comment> \<open>\<^verbatim>\<open>Array.from({ length: this.concurrency }, () => worker())\<close>\<close>
  "spawnAll items n st = (spawn items ^^ n) st"

definition runBulkDelete_with ::
  "'w host \<Rightarrow> (nat \<Rightarrow> string \<Rightarrow> (unit, 'w) async) \<Rightarrow> (nat \<Rightarrow> nat) \<Rightarrow> engine \<Rightarrow> 'w
     \<Rightarrow> (engine \<times> 'w \<times> summary option) option" where
  "runBulkDelete_with h del sched e w =
     (if \<not> enabled (cfg e) then Some (e, w, None)
      else
        let items = selected e in
        if items = [] then Some (e, w, None)
        else
          (case ensureNotOnSelected h items w of
             None \<Rightarrow> None
           | Some w1 \<Rightarrow>
               let tot = length items;
                   st0 = \<lparr> cursor = 0, processed = 0, succeeded = 0, failed = 0,
                           eng = startRun tot e, page = w1, workers = [], resumptions = 0 \<rparr>
               in (case drain h del sched items (spawnAll items (nat (concurrency (cfg e))) st0) of
                     None \<Rightarrow> None
                   | Some st \<Rightarrow>
                       let e2 = setStatus (StatusDone (succeeded st) tot (failed st)) (eng st)
                       in (case waitSidebarReady h 3500 (page st) of
                             None \<Rightarrow> None
                           | Some w2 \<Rightarrow>
                               Some (finishRun (updateBar e2),
                                     attachCheckboxes h (cfg e2) w2,
                                     Some \<lparr> sum_total = tot, sum_processed = processed st,
                                            sum_succeeded = succeeded st, sum_failed = failed st \<rparr>)))))"

definition runBulkDelete ::
  "'w host \<Rightarrow> (nat \<Rightarrow> nat) \<Rightarrow> engine \<Rightarrow> 'w \<Rightarrow> (engine \<times> 'w \<times> summary option) option" where
  \<comment> \<open>the run in which every call of \<^verbatim>\<open>deleteViaUI\<close> has the page to itself from start to end\<close>
  "runBulkDelete h sched e w = runBulkDelete_with h (\<lambda>n. deleteViaUI h (cfg e)) sched e w"

definition clock_progress :: "'w host \<Rightarrow> bool" where
  \<comment> \<open>a timer set to \<open>ms\<close> milliseconds does not fire before they have passed\<close>
  "clock_progress h = (\<forall>ms w. perfNow h w + ms \<le> perfNow h (react h (TimerFired ms) w))"

fun busy :: "worker \<Rightarrow> nat" where
  \<comment> \<open>1 for a worker whose item has been claimed and not yet counted\<close>
  "busy (Deleting _) = 1"
| "busy Pausing = 0"
| "busy Returned = 0"

definition renderedBar :: ui where
  \<comment> \<open>the bar as \<^verbatim>\<open>renderBar\<close> builds it\<close>
  "renderedBar =
     \<lparr> running = False, loaderHidden = True, statusShown = StatusEmpty, pill = None,
       countShown = 0, barHidden = True, delDisabled = False, clearDisabled = False,
       selectAllDisabled = False, stealthAttr = False \<rparr>"

definition pool_inv :: "item list \<Rightarrow> 'w pool \<Rightarrow> bool" where
  \<comment> \<open>what holds of the counters whenever no worker is running\<close>
  "pool_inv items st =
     (processed st = succeeded st + failed st
      \<and> processed st + sum_list (map busy (workers st)) = cursor st
      \<and> cursor st \<le> length items
      \<and> (Returned \<in> set (workers st) \<longrightarrow> length items \<le> cursor st))"

declare waitFor_loop.simps [code]

declare waitSidebarReady_loop.simps [code]

section \<open>A simulated page\<close>

text \<open>
  A small page to run the engine on.  Row \<open>r\<close> has the options button \<open>100 + r\<close>; the
  menu is element 200 and its delete entry 201; the dialog is element 300 with the
  confirm button 301 and the cancel button 302.  A click on an options button opens the
  menu of its row unless the page is deaf; the delete entry opens the dialog; confirming
  removes the row unless the page keeps its rows.  Every timer fires \<open>t_lag\<close>
  milliseconds late (never early), and a menu of the page's own opens at the time \<open>t_strayMenuAt\<close>.
\<close>

record toy =
  t_now :: int
  t_lag :: int
  t_rows :: "(elem \<times> string) list"
  t_menuFor :: "elem option"
  t_dialogFor :: "elem option"
  t_deaf :: bool
  t_keeps :: bool
  t_strayMenuAt :: "int option"

definition toyClick :: "elem \<Rightarrow> toy \<Rightarrow> toy" where
  "toyClick el w =
     (if 100 < el \<and> el < 200 then (if t_deaf w then w else w\<lparr> t_menuFor := Some (el - 100) \<rparr>)
      else if el = 201 then
        (case t_menuFor w of
           Some r \<Rightarrow> w\<lparr> t_menuFor := None, t_dialogFor := Some r \<rparr>
         | None \<Rightarrow> w)
      else if el = 301 then
        (case t_dialogFor w of
           Some r \<Rightarrow> w\<lparr> t_dialogFor := None,
                        t_rows := (if t_keeps w then t_rows w else filter (\<lambda>p. fst p \<noteq> r) (t_rows w)) \<rparr>
         | None \<Rightarrow> w)
      else if el = 302 then w\<lparr> t_dialogFor := None \<rparr>
      else w)"

definition toyReact :: "effect \<Rightarrow> toy \<Rightarrow> toy" where
  "toyReact eff w =
     (case eff of
        TimerFired ms \<Rightarrow> w\<lparr> t_now := t_now w + max ms 0 + max 0 (t_lag w) \<rparr>
      | IdleFired ms \<Rightarrow> w\<lparr> t_now := t_now w + 1 \<rparr>
      | Dispatched el ev \<Rightarrow> (if ev_type ev = ''click'' then toyClick el w else w)
      | NativeClick el \<Rightarrow> toyClick el w
      | EscapeKey \<Rightarrow> w\<lparr> t_menuFor := None \<rparr>
      | _ \<Rightarrow> w)"

definition toyMenuOpen :: "toy \<Rightarrow> bool" where
  "toyMenuOpen w =
     (t_menuFor w \<noteq> None \<or> (case t_strayMenuAt w of Some t \<Rightarrow> t \<le> t_now w | None \<Rightarrow> False))"

definition toyQuery :: "scope \<Rightarrow> selector \<Rightarrow> toy \<Rightarrow> elem list" where
  "toyQuery sc sel w =
     (case sel of
        SelChatRow \<Rightarrow> map fst (t_rows w)
      | SelOptionsTestid \<Rightarrow>
          (case sc of Within r \<Rightarrow> [100 + r] | Document \<Rightarrow> map (\<lambda>p. 100 + fst p) (t_rows w))
      | SelDeleteTestid \<Rightarrow> (if t_menuFor w \<noteq> None then [201] else [])
      | SelOpenMenu \<Rightarrow> (if toyMenuOpen w then [200] else [])
      | SelConfirmTestid \<Rightarrow> (if t_dialogFor w \<noteq> None then [301] else [])
      | SelDialog \<Rightarrow> (if t_dialogFor w \<noteq> None then [300] else [])
      | SelSecondaryOrButton \<Rightarrow> (if t_dialogFor w \<noteq> None then [302] else [])
      | _ \<Rightarrow> [])"

definition toyHost :: "toy host" where
  "toyHost =
     \<lparr> perfNow = t_now,
       react = toyReact,
       raises = (\<lambda>eff w. False),
       querySelectorAll = toyQuery,
       closest = (\<lambda>el sel w. if el = 301 \<and> sel = SelDialog \<and> t_dialogFor w \<noteq> None
                              then Some 300 else None),
       hrefProp = (\<lambda>el w. case map_of (t_rows w) el of
                             Some l \<Rightarrow> ''https://chatgpt.com'' @ l
                           | None \<Rightarrow> []),
       hrefAttr = (\<lambda>el w. map_of (t_rows w) el),
       idProp = (\<lambda>el w. ''b''),
       saysDelete = (\<lambda>el w. False),
       boundingRect = (\<lambda>el w. \<lparr> r_left = 10, r_top = 100, r_bottom = 130,
                                 r_width = 200, r_height = 30 \<rparr>),
       innerWidth = (\<lambda>w. 1200),
       innerHeight = (\<lambda>w. 800),
       clientHeight = (\<lambda>w. 800),
       elementFromPoint = (\<lambda>x y w. None),
       containsNode = (\<lambda>a b w. a = b),
       canDispatch = (\<lambda>el w. True),
       canFocus = (\<lambda>el w. True),
       canScrollBy = (\<lambda>el w. False),
       scrollingElement = (\<lambda>w. None),
       documentElement = (\<lambda>w. 0),
       randomSuffix = (\<lambda>w. ''x1''),
       locationHref = (\<lambda>w. ''https://chatgpt.com/'') \<rparr>"

definition toyPage :: toy where
  "toyPage =
     \<lparr> t_now = 0, t_lag = 0,
       t_rows = [(1, ''/c/abc''), (2, ''/c/abcd''), (3, ''/g/xyz/c/ab-1/'')],
       t_menuFor = None, t_dialogFor = None, t_deaf = False, t_keeps = False,
       t_strayMenuAt = None \<rparr>"

definition toyCfg :: opts where
  "toyCfg = newChatBulkUI (noOptions\<lparr> clickRetries_opt := Some 2 \<rparr>)"

definition toyEngine :: engine where
  "toyEngine =
     updateBar \<lparr> cfg = toyCfg,
                 selected = [(''abc'', ''/c/abc''), (''abcd'', ''/c/abcd''), (''ab-1'', ''/g/xyz/c/ab-1/'')],
                 bar = renderedBar \<rparr>"

definition roundRobin :: "nat \<Rightarrow> nat" where
  \<comment> \<open>a scheduler: the suspended workers take turns\<close>
  "roundRobin n = n"

definition alwaysFirst :: "nat \<Rightarrow> nat" where
  \<comment> \<open>a scheduler: the first suspended worker is resumed\<close>
  "alwaysFirst n = 0"

definition deafPage :: toy where
  \<comment> \<open>no options button reacts, and every timer is 300 ms late\<close>
  "deafPage = toyPage\<lparr> t_deaf := True, t_lag := 300 \<rparr>"

definition strayPage :: toy where
  \<comment> \<open>as \<open>deafPage\<close>, and at 1400 ms the page opens a menu of its own\<close>
  "strayPage = toyPage\<lparr> t_deaf := True, t_lag := 300, t_strayMenuAt := Some 1400 \<rparr>"

definition keepsPage :: toy where
  \<comment> \<open>confirming does not remove the row, and every timer is 8 s late\<close>
  "keepsPage = toyPage\<lparr> t_keeps := True, t_lag := 8000 \<rparr>"

definition oneSelected :: engine where
  "oneSelected = updateBar \<lparr> cfg = toyCfg, selected = [(''abc'', ''/c/abc'')], bar = renderedBar \<rparr>"

definition onePool :: "toy pool" where
  \<comment> \<open>the pool of a run over \<open>oneSelected\<close> on \<open>keepsPage\<close> once its two workers have
      been started: the first has claimed the item, the second found nothing to claim\<close>
  "onePool =
     \<lparr> cursor = 1, processed = 0, succeeded = 0, failed = 0,
       eng = startRun 1 oneSelected, page = keepsPage,
       workers = [Deleting (''abc'', ''/c/abc''), Returned], resumptions = 0 \<rparr>"

text \<open>
  A page under observation: \<open>traced h\<close> is the page of \<open>h\<close> together with the
  list, in order, of the effects the engine has had on it.
\<close>

definition traced :: "'w host \<Rightarrow> ('w \<times> effect list) host" where
  "traced h =
     \<lparr> perfNow = (\<lambda>s. perfNow h (fst s)),
       react = (\<lambda>eff s. (react h eff (fst s), snd s @ [eff])),
       raises = (\<lambda>eff s. raises h eff (fst s)),
       querySelectorAll = (\<lambda>sc sel s. querySelectorAll h sc sel (fst s)),
       closest = (\<lambda>el sel s. closest h el sel (fst s)),
       hrefProp = (\<lambda>el s. hrefProp h el (fst s)),
       hrefAttr = (\<lambda>el s. hrefAttr h el (fst s)),
       idProp = (\<lambda>el s. idProp h el (fst s)),
       saysDelete = (\<lambda>el s. saysDelete h el (fst s)),
       boundingRect = (\<lambda>el s. boundingRect h el (fst s)),
       innerWidth = (\<lambda>s. innerWidth h (fst s)),
       innerHeight = (\<lambda>s. innerHeight h (fst s)),
       clientHeight = (\<lambda>s. clientHeight h (fst s)),
       elementFromPoint = (\<lambda>x y s. elementFromPoint h x y (fst s)),
       containsNode = (\<lambda>a b s. containsNode h a b (fst s)),
       canDispatch = (\<lambda>el s. canDispatch h el (fst s)),
       canFocus = (\<lambda>el s. canFocus h el (fst s)),
       canScrollBy = (\<lambda>el s. canScrollBy h el (fst s)),
       scrollingElement = (\<lambda>s. scrollingElement h (fst s)),
       documentElement = (\<lambda>s. documentElement h (fst s)),
       randomSuffix = (\<lambda>s. randomSuffix h (fst s)),
       locationHref = (\<lambda>s. locationHref h (fst s)) \<rparr>"

fun isClickOn :: "elem \<Rightarrow> effect \<Rightarrow> bool" where
  "isClickOn el (Dispatched target ev) = (target = el \<and> ev_type ev = ''click'')"
| "isClickOn el eff = False"

definition stickyHost :: "(toy \<times> effect list) host" where
  \<comment> \<open>the simulated page under observation; every element stays 20 pixels below the top
      of the window however the page is scrolled, and a menu that does not carry the
      trigger's id (element 200) is open once the options button 101 has been clicked twice\<close>
  "stickyHost =
     (traced toyHost)
       \<lparr> querySelectorAll := (\<lambda>sc sel s.
            if sel = SelOpenMenu
            then (if 2 \<le> length (filter (isClickOn 101) (snd s)) then [200] else [])
            else toyQuery sc sel (fst s)),
         boundingRect := (\<lambda>el s. \<lparr> r_left = 10, r_top = 20, r_bottom = 50,
                                   r_width = 200, r_height = 30 \<rparr>) \<rparr>"

fun effectOf :: "elem \<Rightarrow> click_step \<Rightarrow> effect" where
  \<comment> \<open>the effect of a step of the click sequence that the target accepts\<close>
  "effectOf target (Ev ev) = Dispatched target ev"
| "effectOf target FocusIfPossible = Focused target"

section \<open>Properties of the locator\<close>

lemma slash_not_idChar: "\<not> idChar (CHR ''/'')"
  by (simp add: idChar_def)

lemma ciChar_c_idChar: "ciChar (CHR ''c'') c \<Longrightarrow> idChar c"
  by (auto simp: ciChar_def idChar_def)

lemma ciChar_c_not_slash: "\<not> ciChar (CHR ''c'') (CHR ''/'')"
  by (simp add: ciChar_def)

lemma takeWhile_ident:
  assumes "list_all idChar ident" and "sfx = [] \<or> sfx = ''/''"
  shows "takeWhile idChar (ident @ sfx) = ident" and "dropWhile idChar (ident @ sfx) = sfx"
  using assms slash_not_idChar by (auto simp: list_all_iff takeWhile_append2 dropWhile_append2)

lemma matchAt_iff:
  "matchAt s = Some ident \<longleftrightarrow>
     (ident \<noteq> [] \<and> list_all idChar ident
      \<and> (\<exists>c sfx. ciChar (CHR ''c'') c \<and> (sfx = [] \<or> sfx = ''/'') \<and> s = [CHR ''/'', c, CHR ''/''] @ ident @ sfx))"
proof
  assume m: "matchAt s = Some ident"
  then obtain s1 c s2 rest where s: "s = s1 # c # s2 # rest"
    by (cases s rule: matchAt.cases) auto
  from m have a: "s1 = CHR ''/''" "ciChar (CHR ''c'') c" "s2 = CHR ''/''"
    and b: "ident = takeWhile idChar rest" "ident \<noteq> []"
      "dropWhile idChar rest = [] \<or> dropWhile idChar rest = ''/''"
    unfolding s by (auto simp: Let_def split: if_splits)
  have "rest = ident @ dropWhile idChar rest"
    by (simp add: b(1))
  moreover have "list_all idChar ident"
    unfolding b(1) list_all_iff by (auto dest: set_takeWhileD)
  ultimately show "ident \<noteq> [] \<and> list_all idChar ident
      \<and> (\<exists>c sfx. ciChar (CHR ''c'') c \<and> (sfx = [] \<or> sfx = ''/'') \<and> s = [CHR ''/'', c, CHR ''/''] @ ident @ sfx)"
    using a b(2,3) s by (metis append_Cons append_Nil)
next
  assume "ident \<noteq> [] \<and> list_all idChar ident
      \<and> (\<exists>c sfx. ciChar (CHR ''c'') c \<and> (sfx = [] \<or> sfx = ''/'') \<and> s = [CHR ''/'', c, CHR ''/''] @ ident @ sfx)"
  then obtain c sfx where h: "ident \<noteq> []" "list_all idChar ident" "ciChar (CHR ''c'') c"
    "sfx = [] \<or> sfx = ''/''" "s = [CHR ''/'', c, CHR ''/''] @ ident @ sfx"
    by blast
  show "matchAt s = Some ident"
    using h(1,3,4) takeWhile_ident [OF h(2,4)] by (simp add: h(5))
qed

lemma dropWhile_long:
  assumes "v \<noteq> []"
  shows "2 \<le> length (dropWhile idChar (u @ CHR ''/'' # v))"
proof (induction u)
  case Nil
  show ?case using assms slash_not_idChar by (cases v) auto
next
  case (Cons a u)
  then show ?case by auto
qed

lemma matchAt_None_long:
  assumes "2 \<le> length (dropWhile idChar rest)"
  shows "matchAt (s1 # c # s2 # rest) = None"
proof -
  have "dropWhile idChar rest \<noteq> []" "dropWhile idChar rest \<noteq> ''/''"
    using assms by (auto simp del: dropWhile_eq_Nil_conv)
  then show ?thesis
    by (simp add: Let_def del: dropWhile_eq_Nil_conv)
qed

lemma matchAt_earlier:
  assumes "ident \<noteq> []" and "ciChar (CHR ''c'') c"
  shows "matchAt (a # pre @ [CHR ''/'', c, CHR ''/''] @ ident @ sfx) = None"
proof (cases pre)
  case Nil
  then show ?thesis using ciChar_c_not_slash by simp
next
  case (Cons b pre')
  show ?thesis
  proof (cases pre')
    case Nil
    have L: "2 \<le> length (dropWhile idChar ([c] @ CHR ''/'' # (ident @ sfx)))"
      using assms(1) by (intro dropWhile_long) simp
    have e: "a # pre @ [CHR ''/'', c, CHR ''/''] @ ident @ sfx
          = a # b # CHR ''/'' # ([c] @ CHR ''/'' # (ident @ sfx))"
      by (simp add: Cons Nil)
    show ?thesis
      unfolding e by (rule matchAt_None_long [OF L])
  next
    case (Cons b2 pre'')
    have L: "2 \<le> length (dropWhile idChar ((pre'' @ [CHR ''/'', c]) @ CHR ''/'' # (ident @ sfx)))"
      using assms(1) by (intro dropWhile_long) simp
    have e: "a # pre @ [CHR ''/'', c, CHR ''/''] @ ident @ sfx
          = a # b # b2 # ((pre'' @ [CHR ''/'', c]) @ CHR ''/'' # (ident @ sfx))"
      by (simp add: \<open>pre = b # pre'\<close> Cons)
    show ?thesis
      unfolding e by (rule matchAt_None_long [OF L])
  qed
qed

lemma regexMatch_complete:
  assumes "ident \<noteq> []" and "list_all idChar ident" and "ciChar (CHR ''c'') c"
    and "sfx = [] \<or> sfx = ''/''"
  shows "regexMatch (pre @ [CHR ''/'', c, CHR ''/''] @ ident @ sfx) = Some ident"
proof (induction pre)
  case Nil
  have "matchAt ([CHR ''/'', c, CHR ''/''] @ ident @ sfx) = Some ident"
    using assms by (subst matchAt_iff) blast
  then show ?case by simp
next
  case (Cons a pre)
  have "matchAt (a # pre @ [CHR ''/'', c, CHR ''/''] @ ident @ sfx) = None"
    using assms(1,3) by (rule matchAt_earlier)
  then show ?case using Cons by simp
qed

lemma regexMatch_sound:
  "regexMatch p = Some ident \<Longrightarrow>
     ident \<noteq> [] \<and> list_all idChar ident
     \<and> (\<exists>pre c sfx. ciChar (CHR ''c'') c \<and> (sfx = [] \<or> sfx = ''/'')
           \<and> p = pre @ [CHR ''/'', c, CHR ''/''] @ ident @ sfx)"
proof (induction p)
  case Nil
  then show ?case by simp
next
  case (Cons a p)
  show ?case
  proof (cases "matchAt (a # p)")
    case None
    with Cons.prems have "regexMatch p = Some ident" by simp
    from Cons.IH [OF this] obtain pre c sfx where
      h: "ident \<noteq> []" "list_all idChar ident" "ciChar (CHR ''c'') c" "sfx = [] \<or> sfx = ''/''"
        "p = pre @ [CHR ''/'', c, CHR ''/''] @ ident @ sfx"
      by blast
    have "a # p = (a # pre) @ [CHR ''/'', c, CHR ''/''] @ ident @ sfx"
      by (simp add: h(5))
    then show ?thesis using h(1-4) by blast
  next
    case (Some i)
    with Cons.prems have "matchAt (a # p) = Some ident" by simp
    then have "ident \<noteq> [] \<and> list_all idChar ident
      \<and> (\<exists>c sfx. ciChar (CHR ''c'') c \<and> (sfx = [] \<or> sfx = ''/'') \<and> a # p = [] @ [CHR ''/'', c, CHR ''/''] @ ident @ sfx)"
      by (simp add: matchAt_iff)
    then show ?thesis by blast
  qed
qed

lemma strip_last: "stripTrailingSlashes s \<noteq> [] \<Longrightarrow> last (stripTrailingSlashes s) \<noteq> CHR ''/''"
  unfolding stripTrailingSlashes_def
  by (metis (mono_tags, lifting) hd_dropWhile last_rev rev_is_Nil_conv)

lemma normalizePath_last: "normalizePath x \<noteq> [] \<Longrightarrow> last (normalizePath x) \<noteq> CHR ''/''"
  unfolding normalizePath_def by (auto split: option.splits dest: strip_last)

lemma extractId_iff:
  "extractIdFromHref (Some x) = Some ident \<longleftrightarrow> x \<noteq> [] \<and> identifierSegment (normalizePath x) ident"
proof
  assume e: "extractIdFromHref (Some x) = Some ident"
  then have x: "x \<noteq> []" and r: "regexMatch (normalizePath x) = Some ident"
    by (auto split: if_splits)
  from regexMatch_sound [OF r] obtain pre c sfx where
    h: "ident \<noteq> []" "list_all idChar ident" "ciChar (CHR ''c'') c" "sfx = [] \<or> sfx = ''/''"
      "normalizePath x = pre @ [CHR ''/'', c, CHR ''/''] @ ident @ sfx"
    by blast
  have "sfx \<noteq> ''/''"
  proof
    assume "sfx = ''/''"
    then have "last (normalizePath x) = CHR ''/''" by (simp add: h(5))
    moreover have "normalizePath x \<noteq> []" by (simp add: h(5))
    ultimately show False using normalizePath_last by blast
  qed
  then have "normalizePath x = pre @ [CHR ''/'', c, CHR ''/''] @ ident"
    using h(4,5) by simp
  then show "x \<noteq> [] \<and> identifierSegment (normalizePath x) ident"
    using x h(1-3) unfolding identifierSegment_def by blast
next
  assume "x \<noteq> [] \<and> identifierSegment (normalizePath x) ident"
  then obtain pre c where x: "x \<noteq> []" and
    h: "ident \<noteq> []" "list_all idChar ident" "ciChar (CHR ''c'') c"
      "normalizePath x = pre @ [CHR ''/'', c, CHR ''/''] @ ident"
    unfolding identifierSegment_def by blast
  have "regexMatch (pre @ [CHR ''/'', c, CHR ''/''] @ ident @ []) = Some ident"
    using h(1-3) by (intro regexMatch_complete) simp_all
  then show "extractIdFromHref (Some x) = Some ident"
    using x h(4) by simp
qed

text \<open>
  C4.  \<open>extractIdFromHref\<close> gives the identifier \<^verbatim>\<open>abc-123\<close> for \<^verbatim>\<open>/c/abc-123\<close> and for
  \<^verbatim>\<open>/g/xyz/c/abc-123\<close>, also with a trailing slash, with a query string and with both; it
  gives \<^verbatim>\<open>null\<close> for \<^verbatim>\<open>/c/\<close> and for every reference whose normalized path has no
  identifier segment.
\<close>

theorem extractId_same_identifier:
  "extractIdFromHref (Some ''/c/abc-123'') = Some ''abc-123''
   \<and> extractIdFromHref (Some ''/g/xyz/c/abc-123'') = Some ''abc-123''
   \<and> extractIdFromHref (Some ''/c/abc-123/'') = Some ''abc-123''
   \<and> extractIdFromHref (Some ''/g/xyz/c/abc-123/'') = Some ''abc-123''
   \<and> extractIdFromHref (Some ''/c/abc-123?model=x'') = Some ''abc-123''
   \<and> extractIdFromHref (Some ''/g/xyz/c/abc-123?model=x'') = Some ''abc-123''
   \<and> extractIdFromHref (Some ''/c/abc-123/?model=x'') = Some ''abc-123''
   \<and> extractIdFromHref (Some ''/g/xyz/c/abc-123/?model=x'') = Some ''abc-123''
   \<and> extractIdFromHref (Some ''/c/'') = None
   \<and> (\<forall>x. (\<nexists>ident. identifierSegment (normalizePath x) ident)
          \<longrightarrow> extractIdFromHref (Some x) = None)"
proof -
  note defs = normalizePath_def urlPathname_def beforeChar_def ciPrefix_def ciChar_def
    stripTrailingSlashes_def idChar_def
  have "\<And>x. \<nexists>ident. identifierSegment (normalizePath x) ident
          \<Longrightarrow> extractIdFromHref (Some x) = None"
  proof -
    fix x
    assume n: "\<nexists>ident. identifierSegment (normalizePath x) ident"
    show "extractIdFromHref (Some x) = None"
    proof (cases "extractIdFromHref (Some x)")
      case None
      then show ?thesis .
    next
      case (Some ident)
      then have "identifierSegment (normalizePath x) ident"
        by (simp only: extractId_iff)
      with n show ?thesis by blast
    qed
  qed
  moreover have "extractIdFromHref (Some ''/c/abc-123'') = Some ''abc-123''"
    by (simp add: defs)
  moreover have "extractIdFromHref (Some ''/g/xyz/c/abc-123'') = Some ''abc-123''"
    by (simp add: defs)
  moreover have "extractIdFromHref (Some ''/c/abc-123/'') = Some ''abc-123''"
    by (simp add: defs)
  moreover have "extractIdFromHref (Some ''/g/xyz/c/abc-123/'') = Some ''abc-123''"
    by (simp add: defs)
  moreover have "extractIdFromHref (Some ''/c/abc-123?model=x'') = Some ''abc-123''"
    by (simp add: defs)
  moreover have "extractIdFromHref (Some ''/g/xyz/c/abc-123?model=x'') = Some ''abc-123''"
    by (simp add: defs)
  moreover have "extractIdFromHref (Some ''/c/abc-123/?model=x'') = Some ''abc-123''"
    by (simp add: defs)
  moreover have "extractIdFromHref (Some ''/g/xyz/c/abc-123/?model=x'') = Some ''abc-123''"
    by (simp add: defs)
  moreover have "extractIdFromHref (Some ''/c/'') = None"
    by (simp add: defs)
  ultimately show ?thesis by blast
qed

theorem extractId_same_identifier_witness:
  "normalizePath ''/g/xyz/?model=x'' = ''/g/xyz''
   \<and> (\<nexists>ident. identifierSegment (normalizePath ''/g/xyz/?model=x'') ident)
   \<and> extractIdFromHref (Some ''/g/xyz/?model=x'') = None"
proof -
  note defs = normalizePath_def urlPathname_def beforeChar_def ciPrefix_def ciChar_def
    stripTrailingSlashes_def idChar_def
  have n: "normalizePath ''/g/xyz/?model=x'' = ''/g/xyz''"
    by (simp add: defs)
  have e: "extractIdFromHref (Some ''/g/xyz/?model=x'') = None"
    by (simp add: defs)
  have h: "\<nexists>ident. identifierSegment (normalizePath ''/g/xyz/?model=x'') ident"
  proof
    assume "\<exists>ident. identifierSegment (normalizePath ''/g/xyz/?model=x'') ident"
    then obtain ident where "identifierSegment (normalizePath ''/g/xyz/?model=x'') ident" ..
    then have "extractIdFromHref (Some ''/g/xyz/?model=x'') = Some ident"
      by (subst extractId_iff) simp
    with e show False by simp
  qed
  from extractId_same_identifier have
    "(\<nexists>ident. identifierSegment (normalizePath ''/g/xyz/?model=x'') ident)
       \<longrightarrow> extractIdFromHref (Some ''/g/xyz/?model=x'') = None"
    by blast
  with h n show ?thesis by blast
qed

lemma strip_idem: "stripTrailingSlashes (stripTrailingSlashes s) = stripTrailingSlashes s"
  unfolding stripTrailingSlashes_def by simp

lemma strip_set: "set (stripTrailingSlashes s) \<subseteq> set s"
  unfolding stripTrailingSlashes_def
  by (metis set_dropWhileD set_rev subsetI)

lemma strip_is_take: "stripTrailingSlashes s = take (length (stripTrailingSlashes s)) s"
proof -
  have "rev s = takeWhile (\<lambda>c. c = CHR ''/'') (rev s) @ dropWhile (\<lambda>c. c = CHR ''/'') (rev s)"
    by simp
  then have "s = rev (dropWhile (\<lambda>c. c = CHR ''/'') (rev s)) @ rev (takeWhile (\<lambda>c. c = CHR ''/'') (rev s))"
    by (metis rev_append rev_rev_ident)
  then have "s = stripTrailingSlashes s @ rev (takeWhile (\<lambda>c. c = CHR ''/'') (rev s))"
    by (simp add: stripTrailingSlashes_def)
  then show ?thesis
    by (metis append_eq_conv_conj)
qed

lemma beforeChar_free: "ch \<notin> set s \<Longrightarrow> beforeChar ch s = s"
  by (auto simp: beforeChar_def takeWhile_eq_all_conv)

lemma beforeChar_notin: "ch \<notin> set (beforeChar ch s)"
  unfolding beforeChar_def by (metis (mono_tags, lifting) set_takeWhileD)

lemma url_abs_path:
  assumes "take 1 s = ''/''" and "take 2 s \<noteq> ''//''"
    and "CHR ''#'' \<notin> set s" and "CHR ''?'' \<notin> set s"
  shows "urlPathname s = Some s"
proof -
  obtain t where s: "s = CHR ''/'' # t"
    using assms(1) by (cases s) auto
  have a: "\<not> ciPrefix ''https://'' s" and b: "\<not> ciPrefix ''http://'' s"
    by (simp_all add: s ciPrefix_def ciChar_def)
  show ?thesis
    using assms a b by (simp add: urlPathname_def beforeChar_free)
qed

lemma normalizePath_valid:
  assumes "valid_ref x"
  shows "normalizePath x = stripTrailingSlashes (beforeChar (CHR ''?'') x)"
proof -
  let ?p = "beforeChar (CHR ''?'') x"
  have x: "x = ?p @ dropWhile (\<lambda>c. c \<noteq> CHR ''?'') x"
    by (simp add: beforeChar_def)
  have v: "take 1 ?p = ''/''" "take 2 ?p \<noteq> ''//''"
    "list_all (\<lambda>c. plainChar c \<or> c = CHR ''/'') ?p"
    "list_all (\<lambda>c. plainChar c \<or> c \<in> set ''/?=&'') (dropWhile (\<lambda>c. c \<noteq> CHR ''?'') x)"
    using assms by (simp_all add: valid_ref_def Let_def)
  have np: "\<not> plainChar (CHR ''#'')"
    by (simp add: plainChar_def idChar_def)
  have "CHR ''#'' \<notin> set ?p"
    using v(3) np by (auto simp: list_all_iff)
  moreover have "CHR ''#'' \<notin> set (dropWhile (\<lambda>c. c \<noteq> CHR ''?'') x)"
    using v(4) np by (auto simp: list_all_iff)
  ultimately have h: "CHR ''#'' \<notin> set x"
    by (metis x Un_iff set_append)
  obtain t where p: "?p = CHR ''/'' # t"
    using v(1) by (cases ?p) auto
  have a: "\<not> ciPrefix ''https://'' ?p" and b: "\<not> ciPrefix ''http://'' ?p"
    by (simp_all add: p ciPrefix_def ciChar_def)
  have "urlPathname x = Some ?p"
    using v(1,2) a b h by (simp add: urlPathname_def beforeChar_free [of "CHR ''#''"])
  then show ?thesis
    by (simp add: normalizePath_def)
qed

lemma normalizePath_fixed:
  assumes "take 1 s = ''/''" and "take 2 s \<noteq> ''//''"
    and "CHR ''#'' \<notin> set s" and "CHR ''?'' \<notin> set s"
  shows "normalizePath (stripTrailingSlashes s) = stripTrailingSlashes s"
proof (cases "stripTrailingSlashes s = []")
  case True
  have "normalizePath [] = []"
    by (simp add: normalizePath_def urlPathname_def beforeChar_def ciPrefix_def stripTrailingSlashes_def)
  then show ?thesis
    by (simp add: True)
next
  case False
  let ?q = "stripTrailingSlashes s"
  obtain n where q: "?q = take n s"
    using strip_is_take by blast
  have n: "0 < n"
    using False q by (cases n) auto
  have q1: "take 1 ?q = ''/''"
    using n assms(1) by (simp add: q min_def)
  have q2: "take 2 ?q \<noteq> ''//''"
  proof (cases "n < 2")
    case True
    then have "n = 1" using n by simp
    then show ?thesis using assms(1) by (simp add: q)
  next
    case False
    then show ?thesis using assms(2) by (simp add: q min_def)
  qed
  have "set ?q \<subseteq> set s"
    by (rule strip_set)
  then have "CHR ''#'' \<notin> set ?q" "CHR ''?'' \<notin> set ?q"
    using assms(3,4) by auto
  then have "urlPathname ?q = Some ?q"
    using q1 q2 by (intro url_abs_path)
  then show ?thesis
    by (simp add: normalizePath_def strip_idem)
qed

text \<open>
  C5.  On every valid reference \<open>normalizePath\<close> is idempotent.  A valid reference is
  what \<open>valid_ref\<close> says: the absolute path a row carries, with or without trailing slashes
  and query string.
\<close>

theorem normalize_idempotent:
  assumes "valid_ref x"
  shows "normalizePath (normalizePath x) = normalizePath x"
proof -
  let ?p = "beforeChar (CHR ''?'') x"
  have v: "take 1 ?p = ''/''" "take 2 ?p \<noteq> ''//''"
    "list_all (\<lambda>c. plainChar c \<or> c = CHR ''/'') ?p"
    using assms by (simp_all add: valid_ref_def Let_def)
  have "\<not> plainChar (CHR ''#'')"
    by (simp add: plainChar_def idChar_def)
  then have "CHR ''#'' \<notin> set ?p"
    using v(3) by (auto simp: list_all_iff)
  moreover have "CHR ''?'' \<notin> set ?p"
    by (rule beforeChar_notin)
  ultimately have "normalizePath (stripTrailingSlashes ?p) = stripTrailingSlashes ?p"
    using v(1,2) by (intro normalizePath_fixed)
  then show ?thesis
    by (simp add: normalizePath_valid [OF assms])
qed

theorem normalize_idempotent_witness:
  "valid_ref ''/g/xyz/c/abc-123//?model=4&x=/y''
   \<and> normalizePath ''/g/xyz/c/abc-123//?model=4&x=/y'' = ''/g/xyz/c/abc-123''
   \<and> normalizePath (normalizePath ''/g/xyz/c/abc-123//?model=4&x=/y'') = ''/g/xyz/c/abc-123''"
proof -
  have v: "valid_ref ''/g/xyz/c/abc-123//?model=4&x=/y''"
    by (simp add: valid_ref_def beforeChar_def plainChar_def idChar_def)
  have n: "normalizePath ''/g/xyz/c/abc-123//?model=4&x=/y'' = ''/g/xyz/c/abc-123''"
    by (simp add: normalizePath_def urlPathname_def beforeChar_def ciPrefix_def ciChar_def stripTrailingSlashes_def)
  show ?thesis
    using v n normalize_idempotent [OF v] by simp
qed

text \<open>
  The restriction to valid references matters: a link whose path begins with two slashes
  is normalized to a string that the URL parser reads as a network-path reference, with
  the first segment as the host.
\<close>

lemma normalize_twice_network_path:
  "\<not> valid_ref ''https://chatgpt.com//c/abc''
   \<and> normalizePath ''https://chatgpt.com//c/abc'' = ''//c/abc''
   \<and> normalizePath ''//c/abc'' = ''/abc''"
  by (simp add: valid_ref_def normalizePath_def urlPathname_def beforeChar_def ciPrefix_def
        ciChar_def afterAuthority_def stripTrailingSlashes_def)


text \<open>
  C6.  \<open>findRowByHref\<close> returns a candidate row only if the normalized path of the row's
  link equals the normalized path of the target, and it returns \<^verbatim>\<open>null\<close> exactly when no
  candidate's normalized path equals it.  A row whose path merely starts with the target,
  or is a beginning of it, is not returned.
\<close>

theorem findRowByHref_exact:
  "(findRowByHref h href w = Some a \<longrightarrow>
      a \<in> set (querySelectorAll h (rowScope h w) SelChatRow w)
      \<and> normalizePath (hrefProp h a w) = normalizePath href)
   \<and> (findRowByHref h href w = None \<longleftrightarrow>
        (\<forall>c \<in> set (querySelectorAll h (rowScope h w) SelChatRow w).
           normalizePath (hrefProp h c w) \<noteq> normalizePath href))"
  by (auto simp: findRowByHref_def find_Some_iff find_None_iff)

theorem findRowByHref_exact_witness:
  "querySelectorAll toyHost (rowScope toyHost toyPage) SelChatRow toyPage = [1, 2, 3]
   \<and> normalizePath (hrefProp toyHost 2 toyPage) = ''/c/abcd''
   \<and> findRowByHref toyHost ''/c/abc?model=x'' toyPage = Some 1
   \<and> normalizePath (hrefProp toyHost 1 toyPage) = normalizePath ''/c/abc?model=x''
   \<and> findRowByHref toyHost ''/c/ab'' toyPage = None
   \<and> normalizePath (hrefProp toyHost 1 toyPage) \<noteq> normalizePath ''/c/ab''"
proof -
  have a: "querySelectorAll toyHost (rowScope toyHost toyPage) SelChatRow toyPage = [1, 2, 3]"
    by code_simp
  have b: "normalizePath (hrefProp toyHost 2 toyPage) = ''/c/abcd''"
    by code_simp
  have c: "findRowByHref toyHost ''/c/abc?model=x'' toyPage = Some 1"
    by code_simp
  have d: "findRowByHref toyHost ''/c/ab'' toyPage = None"
    by code_simp
  from findRowByHref_exact [of toyHost "''/c/abc?model=x''" toyPage 1] c
  have e: "normalizePath (hrefProp toyHost 1 toyPage) = normalizePath ''/c/abc?model=x''"
    by simp
  from findRowByHref_exact [of toyHost "''/c/ab''" toyPage 1] d a
  have f: "normalizePath (hrefProp toyHost 1 toyPage) \<noteq> normalizePath ''/c/ab''"
    by simp
  from a b c d e f show ?thesis by simp
qed

section \<open>Properties of the configuration\<close>

text \<open>
  C7.  The concurrency the engine works with is the constructor's argument clamped to the
  range from 1 to 4: an engine built with 10 is the engine built with 4, and one built
  with 0 is the one built with 1.
\<close>

theorem concurrency_clamped:
  "concurrency (newChatBulkUI options) = max 1 (min 4 (orDefault (concurrency_opt options) 2))
   \<and> 1 \<le> concurrency (newChatBulkUI options)
   \<and> concurrency (newChatBulkUI options) \<le> 4
   \<and> newChatBulkUI (options\<lparr> concurrency_opt := Some 10 \<rparr>)
       = newChatBulkUI (options\<lparr> concurrency_opt := Some 4 \<rparr>)
   \<and> concurrency (newChatBulkUI (options\<lparr> concurrency_opt := Some 10 \<rparr>)) = 4
   \<and> newChatBulkUI (options\<lparr> concurrency_opt := Some 0 \<rparr>)
       = newChatBulkUI (options\<lparr> concurrency_opt := Some 1 \<rparr>)
   \<and> concurrency (newChatBulkUI (options\<lparr> concurrency_opt := Some 0 \<rparr>)) = 1"
  by (simp add: newChatBulkUI_def orDefault_def)

section \<open>Properties of the waits\<close>

lemma waitFor_loop_first:
  "fn w = Some v \<Longrightarrow> waitFor_loop h fn t0 timeout step polls w = Some (Resolved v, Suc polls, w)"
  by (subst waitFor_loop.simps) simp

lemma waitFor_loop_outcome:
  assumes "waitFor_loop h fn t0 timeout step polls w = Some y"
  shows "polls < fst (snd y)
    \<and> (case fst y of
          Resolved v \<Rightarrow> fn (snd (snd y)) = Some v
        | Rejected e \<Rightarrow> e = Timeout \<and> fn (snd (snd y)) = None
                          \<and> timeout < perfNow h (snd (snd y)) - t0)"
proof (induct rule: waitFor_loop.raw_induct [OF _ assms])
  case (1 loop h fn t0 timeout step polls w y)
  note ih = "1"(1) and body = "1"(2)
  show ?case
  proof (cases "fn w")
    case (Some v)
    with body show ?thesis by auto
  next
    case None
    show ?thesis
    proof (cases "perfNow h w - t0 > timeout")
      case True
      with None body show ?thesis by auto
    next
      case False
      with None body
      have "loop h fn t0 timeout step (Suc polls) (react h (TimerFired step) w) = Some y"
        by simp
      from ih [OF this] show ?thesis by simp
    qed
  qed
qed

lemma waitFor_loop_result:
  assumes "waitFor_loop h fn t0 timeout step polls w = Some (r, n, w')"
  shows "polls < n"
    and "r = Resolved v \<Longrightarrow> fn w' = Some v"
    and "r = Rejected e \<Longrightarrow> e = Timeout \<and> fn w' = None \<and> timeout < perfNow h w' - t0"
  using waitFor_loop_outcome [OF assms] by simp_all

lemma waitFor_loop_settles:
  assumes "clock_progress h" and "0 < step"
  shows "\<exists>res. waitFor_loop h fn t0 timeout step polls w = Some res"
proof (induction "nat (timeout + 1 - (perfNow h w - t0))" arbitrary: w polls rule: less_induct)
  case less
  show ?case
  proof (cases "fn w")
    case (Some v)
    then have "waitFor_loop h fn t0 timeout step polls w = Some (Resolved v, Suc polls, w)"
      by (subst waitFor_loop.simps) simp
    then show ?thesis by (rule exI)
  next
    case None
    show ?thesis
    proof (cases "perfNow h w - t0 > timeout")
      case True
      with None have "waitFor_loop h fn t0 timeout step polls w = Some (Rejected Timeout, Suc polls, w)"
        by (subst waitFor_loop.simps) simp
      then show ?thesis by (rule exI)
    next
      case False
      let ?w = "react h (TimerFired step) w"
      have "perfNow h w + step \<le> perfNow h ?w"
        using assms(1) by (simp add: clock_progress_def)
      then have "nat (timeout + 1 - (perfNow h ?w - t0)) < nat (timeout + 1 - (perfNow h w - t0))"
        using False assms(2) by linarith
      from less [OF this] obtain res where
        res: "waitFor_loop h fn t0 timeout step (Suc polls) ?w = Some res" by blast
      have "waitFor_loop h fn t0 timeout step polls w
            = waitFor_loop h fn t0 timeout step (Suc polls) ?w"
        using None False by (subst waitFor_loop.simps) simp
      with res have "waitFor_loop h fn t0 timeout step polls w = Some res" by simp
      then show ?thesis by (rule exI)
    qed
  qed
qed


lemma clock_progress_toy: "clock_progress toyHost"
  by (simp add: clock_progress_def toyHost_def toyReact_def max_def)

text \<open>
  C10.  \<open>waitFor\<close> evaluates its predicate before it looks at the clock: when the first
  evaluation is truthy the promise resolves with that value after one evaluation,
  whatever the timeout is, zero and negative included; and a rejection is the time-out
  error, comes after at least one evaluation, and the first evaluation was falsy.
\<close>

theorem waitFor_polls_before_deadline:
  "(fn w = Some v \<longrightarrow>
      waitFor_polls h fn timeout step w = Some (Resolved v, 1, w)
      \<and> waitFor h fn timeout step w = Some (Resolved v, w))
   \<and> (waitFor_polls h fn timeout step w = Some (Rejected e, polls, w') \<longrightarrow>
        1 \<le> polls \<and> fn w = None \<and> e = Timeout)"
proof (intro conjI impI)
  assume v: "fn w = Some v"
  show "waitFor_polls h fn timeout step w = Some (Resolved v, 1, w)"
    unfolding waitFor_polls_def using v waitFor_loop_first [of fn w v] by simp
  then show "waitFor h fn timeout step w = Some (Resolved v, w)"
    by (simp add: waitFor_def)
next
  assume r: "waitFor_polls h fn timeout step w = Some (Rejected e, polls, w')"
  then have l: "waitFor_loop h fn (perfNow h w) timeout step 0 w = Some (Rejected e, polls, w')"
    by (simp add: waitFor_polls_def)
  from waitFor_loop_result [OF l] show "1 \<le> polls" and "e = Timeout"
    by auto
  show "fn w = None"
  proof (cases "fn w")
    case None
    then show ?thesis .
  next
    case (Some v)
    with waitFor_loop_first [of fn w v] l show ?thesis by simp
  qed
qed

theorem waitFor_polls_before_deadline_witness:
  "findRowByHref toyHost ''/c/abc'' toyPage = Some 1
   \<and> waitFor_polls toyHost (findRowByHref toyHost ''/c/abc'') (- 5) 45 toyPage = Some (Resolved 1, 1, toyPage)
   \<and> waitFor toyHost (findRowByHref toyHost ''/c/abc'') 0 45 toyPage = Some (Resolved 1, toyPage)
   \<and> waitFor_polls toyHost (findRowByHref toyHost ''/c/zzz'') (- 5) 45 toyPage
        = Some (Rejected Timeout, 1, toyPage)
   \<and> findRowByHref toyHost ''/c/zzz'' toyPage = None
   \<and> (1::nat) \<le> 1"
proof -
  have a: "findRowByHref toyHost ''/c/abc'' toyPage = Some 1"
    by code_simp
  have b: "waitFor_polls toyHost (findRowByHref toyHost ''/c/zzz'') (- 5) 45 toyPage
        = Some (Rejected Timeout, 1, toyPage)"
    by code_simp
  from waitFor_polls_before_deadline
    [of "findRowByHref toyHost ''/c/abc''" toyPage 1 toyHost "- 5" 45 Timeout 0 toyPage]
  have c: "waitFor_polls toyHost (findRowByHref toyHost ''/c/abc'') (- 5) 45 toyPage = Some (Resolved 1, 1, toyPage)"
    using a by simp
  from waitFor_polls_before_deadline
    [of "findRowByHref toyHost ''/c/abc''" toyPage 1 toyHost 0 45 Timeout 0 toyPage]
  have d: "waitFor toyHost (findRowByHref toyHost ''/c/abc'') 0 45 toyPage = Some (Resolved 1, toyPage)"
    using a by simp
  from waitFor_polls_before_deadline
    [of "findRowByHref toyHost ''/c/zzz''" toyPage 1 toyHost "- 5" 45 Timeout 1 toyPage]
  have e: "findRowByHref toyHost ''/c/zzz'' toyPage = None \<and> (1::nat) \<le> 1"
    using b by simp
  from a b c d e show ?thesis by simp
qed

section \<open>Properties of the menu opening\<close>

lemma waitFor_settles:
  assumes "clock_progress h" and "0 < step"
  shows "waitFor h fn timeout step w \<noteq> None"
proof -
  from waitFor_loop_settles [OF assms] obtain res where
    "waitFor_loop h fn (perfNow h w) timeout step 0 w = Some res" by blast
  then show ?thesis
    by (cases res) (simp add: waitFor_def waitFor_polls_def)
qed

lemma waitFor_rejected:
  assumes "waitFor h fn timeout step w = Some (Rejected e, w')"
  shows "e = Timeout \<and> fn w' = None"
proof -
  from assms obtain n where
    "waitFor_loop h fn (perfNow h w) timeout step 0 w = Some (Rejected e, n, w')"
    by (auto simp: waitFor_def waitFor_polls_def split: option.splits)
  from waitFor_loop_result(3) [OF this] show ?thesis by simp
qed

lemma length_concat_replicate: "length (concat (replicate k xs)) = k * length xs"
  by (induction k) simp_all

lemma openMenu_loop_shape:
  assumes "openMenu_loop h cf btn ident n calls w = Some (ret, calls', w')"
  shows "(ret \<longrightarrow> (\<exists>k<n. calls' = calls @ concat (replicate k (failedAttempt cf btn ident))
                              @ successfulAttempt btn ident))
       \<and> (\<not> ret \<longrightarrow> calls' = calls @ concat (replicate n (failedAttempt cf btn ident)))"
  using assms
proof (induction n arbitrary: calls w)
  case 0
  then show ?case by simp
next
  case (Suc n)
  let ?w2 = "realClick h (Some btn) (scrollIntoViewSmart h (Some btn) w)"
  from Suc.prems obtain r w3 where
    wf: "waitFor h (menuProbe h ident) 250 defaultStep ?w2 = Some (r, w3)"
    by (auto simp: Let_def split: option.splits)
  show ?case
  proof (cases r)
    case (Resolved m)
    with Suc.prems wf have "ret" "calls' = calls @ successfulAttempt btn ident"
      by (simp_all add: Let_def)
    then have "calls' = calls @ concat (replicate 0 (failedAttempt cf btn ident))
                              @ successfulAttempt btn ident"
      by simp
    with \<open>ret\<close> show ?thesis by blast
  next
    case (Rejected e)
    with Suc.prems wf have
      "openMenu_loop h cf btn ident n (calls @ failedAttempt cf btn ident)
         (sleep h (clickRetryDelay cf) w3) = Some (ret, calls', w')"
      by (simp add: Let_def)
    from Suc.IH [OF this] have
      a: "ret \<longrightarrow> (\<exists>k<n. calls' = (calls @ failedAttempt cf btn ident)
                @ concat (replicate k (failedAttempt cf btn ident)) @ successfulAttempt btn ident)"
      and b: "\<not> ret \<longrightarrow> calls' = (calls @ failedAttempt cf btn ident)
                @ concat (replicate n (failedAttempt cf btn ident))"
      by simp_all
    have "ret \<longrightarrow> (\<exists>k<Suc n. calls' = calls @ concat (replicate k (failedAttempt cf btn ident))
                              @ successfulAttempt btn ident)"
    proof
      assume ret
      with a obtain k where k: "k < n" "calls' = (calls @ failedAttempt cf btn ident)
                @ concat (replicate k (failedAttempt cf btn ident)) @ successfulAttempt btn ident"
        by blast
      then have "calls' = calls @ concat (replicate (Suc k) (failedAttempt cf btn ident))
                              @ successfulAttempt btn ident"
        by simp
      with k(1) show "\<exists>k<Suc n. calls' = calls @ concat (replicate k (failedAttempt cf btn ident))
                              @ successfulAttempt btn ident"
        by (metis Suc_less_eq)
    qed
    moreover have "\<not> ret \<longrightarrow> calls' = calls @ concat (replicate (Suc n) (failedAttempt cf btn ident))"
      using b by simp
    ultimately show ?thesis by blast
  qed
qed

lemma openMenu_loop_settles:
  assumes "clock_progress h"
  shows "openMenu_loop h cf btn ident n calls w \<noteq> None"
proof (induction n arbitrary: calls w)
  case 0
  show ?case by simp
next
  case (Suc n)
  let ?w2 = "realClick h (Some btn) (scrollIntoViewSmart h (Some btn) w)"
  have "waitFor h (menuProbe h ident) 250 defaultStep ?w2 \<noteq> None"
    using assms by (intro waitFor_settles) (simp_all add: defaultStep_def)
  then obtain r w3 where
    wf: "waitFor h (menuProbe h ident) 250 defaultStep ?w2 = Some (r, w3)"
    by (cases "waitFor h (menuProbe h ident) 250 defaultStep ?w2") auto
  show ?case
  proof (cases r)
    case (Resolved m)
    have "openMenu_loop h cf btn ident (Suc n) calls w
            = Some (True, calls @ successfulAttempt btn ident, w3)"
      using wf Resolved by (simp add: Let_def)
    then show ?thesis by simp
  next
    case (Rejected e)
    have "openMenu_loop h cf btn ident (Suc n) calls w
            = openMenu_loop h cf btn ident n (calls @ failedAttempt cf btn ident)
                (sleep h (clickRetryDelay cf) w3)"
      using wf Rejected by (simp add: Let_def)
    then show ?thesis using Suc.IH by simp
  qed
qed

lemma openMenu_calls_cases:
  assumes "openMenu_calls h cf btn w = Some (r, calls, w')"
  shows "(\<exists>k < nat (clickRetries cf).
            calls = concat (replicate k (failedAttempt cf btn (buttonId h btn w)))
                      @ successfulAttempt btn (buttonId h btn w)
            \<and> r = Resolved ())
       \<or> (calls = concat (replicate (nat (clickRetries cf)) (failedAttempt cf btn (buttonId h btn w)))
            \<and> r = (case querySelector h Document SelOpenMenu w' of
                      Some m \<Rightarrow> Resolved ()
                    | None \<Rightarrow> Rejected E_MENU))"
proof -
  let ?id = "buttonId h btn w"
  let ?w0 = "if idProp h btn w = [] then react h (IdAssigned btn ?id) w else w"
  let ?l = "openMenu_loop h cf btn ?id (nat (clickRetries cf)) [] ?w0"
  have d: "openMenu_calls h cf btn w =
     (case ?l of
        None \<Rightarrow> None
      | Some (returned, calls, w1) \<Rightarrow>
          if returned then Some (Resolved (), calls, w1)
          else (case querySelector h Document SelOpenMenu w1 of
                  Some any \<Rightarrow> Some (Resolved (), calls, w1)
                | None \<Rightarrow> Some (Rejected E_MENU, calls, w1)))"
    by (simp add: openMenu_calls_def Let_def)
  from assms d obtain ret cs w1 where l: "?l = Some (ret, cs, w1)"
    by (cases ?l) auto
  show ?thesis
  proof (cases ret)
    case True
    with assms d l have e: "r = Resolved ()" "cs = calls" "w1 = w'"
      by simp_all
    from openMenu_loop_shape [OF l] True e show ?thesis by auto
  next
    case False
    with assms d l have e: "cs = calls" "w1 = w'"
      by (auto split: option.splits)
    from assms d l False e have "r = (case querySelector h Document SelOpenMenu w' of
                      Some m \<Rightarrow> Resolved ()
                    | None \<Rightarrow> Rejected E_MENU)"
      by (auto split: option.splits)
    moreover from openMenu_loop_shape [OF l] False e
    have "calls = concat (replicate (nat (clickRetries cf)) (failedAttempt cf btn (buttonId h btn w)))"
      by simp
    ultimately show ?thesis by blast
  qed
qed

lemma openMenu_calls_settles:
  assumes "clock_progress h"
  shows "openMenu_calls h cf btn w \<noteq> None"
proof -
  let ?id = "buttonId h btn w"
  let ?w0 = "if idProp h btn w = [] then react h (IdAssigned btn ?id) w else w"
  let ?l = "openMenu_loop h cf btn ?id (nat (clickRetries cf)) [] ?w0"
  have "?l \<noteq> None"
    using assms by (rule openMenu_loop_settles)
  then obtain ret cs w1 where l: "?l = Some (ret, cs, w1)"
    by (cases ?l) auto
  have "openMenu_calls h cf btn w =
     (if ret then Some (Resolved (), cs, w1)
      else (case querySelector h Document SelOpenMenu w1 of
              Some any \<Rightarrow> Some (Resolved (), cs, w1)
            | None \<Rightarrow> Some (Rejected E_MENU, cs, w1)))"
    using l by (simp add: openMenu_calls_def Let_def)
  then show ?thesis
    by (simp split: option.splits)
qed

lemma attempts_distinct:
  "concat (replicate k (failedAttempt cf btn ident)) @ successfulAttempt btn ident
     \<noteq> concat (replicate n (failedAttempt cf btn ident))"
proof
  assume "concat (replicate k (failedAttempt cf btn ident)) @ successfulAttempt btn ident
     = concat (replicate n (failedAttempt cf btn ident))"
  then have "length (concat (replicate k (failedAttempt cf btn ident)) @ successfulAttempt btn ident)
     = length (concat (replicate n (failedAttempt cf btn ident)))"
    by simp
  then have "k * 4 + 3 = n * 4"
    by (simp add: length_concat_replicate failedAttempt_def successfulAttempt_def)
  then show False by presburger
qed

lemma reScroll_eq: "reScroll h btn w = scrollIntoViewSmart h (Some btn) w"
  by (simp add: reScroll_def scrollIntoViewSmart_def sleep_def Let_def)

lemma attempt_eq:
  "attempt h btn ident w =
     waitFor h (menuProbe h ident) 250 defaultStep
       (realClick h (Some btn) (scrollIntoViewSmart h (Some btn) w))"
  by (simp add: attempt_def reScroll_eq)

lemma performAll_append:
  "performAll h (xs @ ys) w =
     (case performAll h xs w of None \<Rightarrow> None | Some v \<Rightarrow> performAll h ys v)"
  by (induction xs arbitrary: w) (simp_all split: option.splits)

lemma openMenu_loop_pages:
  assumes "openMenu_loop h cf btn ident n calls w = Some (ret, calls', w')"
  shows "(ret \<longrightarrow> (\<exists>k<n. \<exists>v m. failedAttempts h cf btn ident k w = Some v
                     \<and> attempt h btn ident v = Some (Resolved m, w')
                     \<and> calls' = calls @ concat (replicate k (failedAttempt cf btn ident))
                                 @ successfulAttempt btn ident
                     \<and> failedAttempts h cf btn ident n w = None))
       \<and> (\<not> ret \<longrightarrow> failedAttempts h cf btn ident n w = Some w'
                     \<and> calls' = calls @ concat (replicate n (failedAttempt cf btn ident)))"
  using assms
proof (induction n arbitrary: calls w)
  case 0
  then show ?case by simp
next
  case (Suc n)
  let ?F = "failedAttempt cf btn ident"
  let ?S = "successfulAttempt btn ident"
  from Suc.prems obtain r w3 where
    wf: "attempt h btn ident w = Some (r, w3)"
    by (auto simp: attempt_eq Let_def split: option.splits)
  show ?case
  proof (cases r)
    case (Resolved m)
    with Suc.prems wf have e: "ret" "w3 = w'" "calls' = calls @ ?S"
      by (simp_all add: attempt_eq Let_def)
    have "failedAttempts h cf btn ident 0 w = Some w" by simp
    moreover have "attempt h btn ident w = Some (Resolved m, w')"
      using wf Resolved e by simp
    moreover have "calls' = calls @ concat (replicate 0 ?F) @ ?S"
      using e(3) by simp
    moreover have "failedAttempts h cf btn ident (Suc n) w = None"
      using wf Resolved by simp
    ultimately show ?thesis using e(1) by blast
  next
    case (Rejected e)
    let ?u = "react h (TimerFired (clickRetryDelay cf)) w3"
    from Rejected Suc.prems wf have
      "openMenu_loop h cf btn ident n (calls @ ?F) ?u = Some (ret, calls', w')"
      by (simp add: attempt_eq Let_def sleep_def)
    from Suc.IH [OF this] have
      a: "ret \<longrightarrow> (\<exists>k<n. \<exists>v m. failedAttempts h cf btn ident k ?u = Some v
                     \<and> attempt h btn ident v = Some (Resolved m, w')
                     \<and> calls' = (calls @ ?F) @ concat (replicate k ?F) @ ?S
                     \<and> failedAttempts h cf btn ident n ?u = None)"
      and b: "\<not> ret \<longrightarrow> failedAttempts h cf btn ident n ?u = Some w'
                     \<and> calls' = (calls @ ?F) @ concat (replicate n ?F)"
      by simp_all
    have s: "failedAttempts h cf btn ident (Suc j) w = failedAttempts h cf btn ident j ?u" for j
      using wf Rejected by simp
    have "ret \<longrightarrow> (\<exists>k<Suc n. \<exists>v m. failedAttempts h cf btn ident k w = Some v
                     \<and> attempt h btn ident v = Some (Resolved m, w')
                     \<and> calls' = calls @ concat (replicate k ?F) @ ?S
                     \<and> failedAttempts h cf btn ident (Suc n) w = None)"
    proof
      assume ret
      with a obtain k v m where k: "k < n" "failedAttempts h cf btn ident k ?u = Some v"
        "attempt h btn ident v = Some (Resolved m, w')"
        "calls' = (calls @ ?F) @ concat (replicate k ?F) @ ?S"
        "failedAttempts h cf btn ident n ?u = None"
        by blast
      have "Suc k < Suc n" using k(1) by simp
      moreover have "failedAttempts h cf btn ident (Suc k) w = Some v"
        using k(2) s by simp
      moreover have "calls' = calls @ concat (replicate (Suc k) ?F) @ ?S"
        using k(4) by simp
      moreover have "failedAttempts h cf btn ident (Suc n) w = None"
        using k(5) s by simp
      ultimately show "\<exists>k<Suc n. \<exists>v m. failedAttempts h cf btn ident k w = Some v
                     \<and> attempt h btn ident v = Some (Resolved m, w')
                     \<and> calls' = calls @ concat (replicate k ?F) @ ?S
                     \<and> failedAttempts h cf btn ident (Suc n) w = None"
        using k(3) by blast
    qed
    moreover have "\<not> ret \<longrightarrow> failedAttempts h cf btn ident (Suc n) w = Some w'
                     \<and> calls' = calls @ concat (replicate (Suc n) ?F)"
      using b s by simp
    ultimately show ?thesis by blast
  qed
qed

lemma performAll_failedAttempt:
  assumes "attempt h btn ident w = Some (Rejected e, u)"
  shows "performAll h (failedAttempt cf btn ident) w
           = Some (react h (TimerFired (clickRetryDelay cf)) u)"
  using assms by (simp add: failedAttempt_def attempt_eq sleep_def)

lemma performAll_successfulAttempt:
  assumes "attempt h btn ident w = Some (Resolved m, u)"
  shows "performAll h (successfulAttempt btn ident) w = Some u"
  using assms by (simp add: successfulAttempt_def attempt_eq)

lemma performAll_failedAttempts:
  assumes "failedAttempts h cf btn ident k w = Some v"
  shows "performAll h (concat (replicate k (failedAttempt cf btn ident))) w = Some v"
  using assms
proof (induction k arbitrary: w)
  case 0
  then show ?case by simp
next
  case (Suc k)
  from Suc.prems obtain e u where
    a: "attempt h btn ident w = Some (Rejected e, u)"
    and f: "failedAttempts h cf btn ident k (react h (TimerFired (clickRetryDelay cf)) u) = Some v"
    by (auto split: option.splits settled.splits)
  have "performAll h (concat (replicate (Suc k) (failedAttempt cf btn ident))) w
      = performAll h (failedAttempt cf btn ident @ concat (replicate k (failedAttempt cf btn ident))) w"
    by simp
  also have "\<dots> = performAll h (concat (replicate k (failedAttempt cf btn ident)))
                    (react h (TimerFired (clickRetryDelay cf)) u)"
    unfolding performAll_append performAll_failedAttempt [OF a] by simp
  also have "\<dots> = Some v"
    using f by (rule Suc.IH)
  finally show ?case .
qed

lemma openMenu_calls_pages:
  assumes "openMenu_calls h cf btn w = Some (r, calls, w')"
    and "ident = buttonId h btn w"
    and "w0 = (if idProp h btn w = [] then react h (IdAssigned btn ident) w else w)"
  shows "(\<exists>k < nat (clickRetries cf). \<exists>v m.
            failedAttempts h cf btn ident k w0 = Some v
            \<and> attempt h btn ident v = Some (Resolved m, w')
            \<and> calls = concat (replicate k (failedAttempt cf btn ident)) @ successfulAttempt btn ident
            \<and> failedAttempts h cf btn ident (nat (clickRetries cf)) w0 = None
            \<and> r = Resolved ())
       \<or> (failedAttempts h cf btn ident (nat (clickRetries cf)) w0 = Some w'
            \<and> calls = concat (replicate (nat (clickRetries cf)) (failedAttempt cf btn ident))
            \<and> r = (case querySelector h Document SelOpenMenu w' of
                      Some m \<Rightarrow> Resolved ()
                    | None \<Rightarrow> Rejected E_MENU))"
proof -
  let ?l = "openMenu_loop h cf btn ident (nat (clickRetries cf)) [] w0"
  have d: "openMenu_calls h cf btn w =
     (case ?l of
        None \<Rightarrow> None
      | Some (returned, calls, w1) \<Rightarrow>
          if returned then Some (Resolved (), calls, w1)
          else (case querySelector h Document SelOpenMenu w1 of
                  Some any \<Rightarrow> Some (Resolved (), calls, w1)
                | None \<Rightarrow> Some (Rejected E_MENU, calls, w1)))"
    unfolding assms(2,3) by (simp add: openMenu_calls_def Let_def)
  from assms(1) d obtain ret cs w1 where l: "?l = Some (ret, cs, w1)"
    by (cases ?l) auto
  show ?thesis
  proof (cases ret)
    case True
    with assms(1) d l have e: "r = Resolved ()" "cs = calls" "w1 = w'"
      by simp_all
    from openMenu_loop_pages [OF l] True e show ?thesis by auto
  next
    case False
    with assms(1) d l have e: "cs = calls" "w1 = w'"
      by (auto split: option.splits)
    from assms(1) d l False e have "r = (case querySelector h Document SelOpenMenu w' of
                      Some m \<Rightarrow> Resolved ()
                    | None \<Rightarrow> Rejected E_MENU)"
      by (auto split: option.splits)
    moreover from openMenu_loop_pages [OF l] False e
    have "failedAttempts h cf btn ident (nat (clickRetries cf)) w0 = Some w'"
      "calls = concat (replicate (nat (clickRetries cf)) (failedAttempt cf btn ident))"
      by simp_all
    ultimately show ?thesis by blast
  qed
qed

lemma clock_progress_sticky: "clock_progress stickyHost"
  by (simp add: clock_progress_def stickyHost_def traced_def toyHost_def toyReact_def max_def)

text \<open>
  C3.  \<open>openMenu\<close> is a bounded retry loop.  From the page \<open>w0\<close> on which the
  trigger has its id, the page goes through \<open>k\<close> failed attempts, \<open>k\<close> at most
  \<open>clickRetries\<close>: in each the trigger is scrolled into view and clicked, the wait of
  250 ms for the menu labelled by the trigger's id, or any open menu, times out, and a
  timer of \<open>clickRetryDelay\<close> follows (also after the last attempt).  When \<open>k\<close>
  is less than \<open>clickRetries\<close> one more attempt follows whose wait resolves, the method
  returns, and the page it leaves is the page of that wait; otherwise the page it leaves is
  the page after the \<open>clickRetries\<close> failed attempts.  The calls the model records are
  these attempts, and performing them one by one on \<open>w0\<close> gives the page the method
  leaves.  The method fails, with \<^verbatim>\<open>E_MENU\<close>, exactly when \<open>clickRetries\<close>
  attempts have failed and no open menu exists on the page they leave; otherwise it
  returns.  Where timers do not fire early it always settles.
\<close>

theorem openMenu_bounded_retry:
  "(let n = nat (clickRetries cf);
        ident = buttonId h btn w;
        w0 = (if idProp h btn w = [] then react h (IdAssigned btn ident) w else w)
    in (openMenu_calls h cf btn w = Some (r, calls, w') \<longrightarrow>
          performAll h calls w0 = Some w'
          \<and> (\<exists>k \<le> n. \<exists>v. failedAttempts h cf btn ident k w0 = Some v
                \<and> calls = concat (replicate k (failedAttempt cf btn ident))
                            @ (if k < n then successfulAttempt btn ident else [])
                \<and> (if k < n then r = Resolved () \<and> (\<exists>menu. attempt h btn ident v = Some (Resolved menu, w'))
                    else v = w'))
          \<and> (r = Rejected E_MENU \<longleftrightarrow>
                failedAttempts h cf btn ident n w0 = Some w'
                \<and> querySelector h Document SelOpenMenu w' = None)
          \<and> (r = Resolved () \<or> r = Rejected E_MENU))
       \<and> (clock_progress h \<longrightarrow> openMenu_calls h cf btn w \<noteq> None))"
  unfolding Let_def
proof (intro conjI impI)
  let ?n = "nat (clickRetries cf)"
  let ?id = "buttonId h btn w"
  let ?w0 = "if idProp h btn w = [] then react h (IdAssigned btn ?id) w else w"
  let ?F = "failedAttempt cf btn ?id"
  let ?S = "successfulAttempt btn ?id"
  assume a: "openMenu_calls h cf btn w = Some (r, calls, w')"
  from openMenu_calls_pages [OF a refl refl] consider
    (returned) k v m where "k < ?n" "failedAttempts h cf btn ?id k ?w0 = Some v"
      "attempt h btn ?id v = Some (Resolved m, w')" "calls = concat (replicate k ?F) @ ?S"
      "failedAttempts h cf btn ?id ?n ?w0 = None" "r = Resolved ()"
  | (exhausted) "failedAttempts h cf btn ?id ?n ?w0 = Some w'" "calls = concat (replicate ?n ?F)"
      "r = (case querySelector h Document SelOpenMenu w' of Some m \<Rightarrow> Resolved () | None \<Rightarrow> Rejected E_MENU)"
    by blast
  note cases = this
  show "performAll h calls ?w0 = Some w'"
  proof (cases rule: cases)
    case (returned k v m)
    from performAll_failedAttempts [OF returned(2)] performAll_successfulAttempt [OF returned(3)]
    show ?thesis
      unfolding returned(4) performAll_append by simp
  next
    case exhausted
    from performAll_failedAttempts [OF exhausted(1)] show ?thesis
      unfolding exhausted(2) .
  qed
  show "\<exists>k \<le> ?n. \<exists>v. failedAttempts h cf btn ?id k ?w0 = Some v
          \<and> calls = concat (replicate k ?F) @ (if k < ?n then ?S else [])
          \<and> (if k < ?n then r = Resolved () \<and> (\<exists>menu. attempt h btn ?id v = Some (Resolved menu, w'))
              else v = w')"
  proof (cases rule: cases)
    case (returned k v m)
    then show ?thesis by (intro exI [of _ k] exI [of _ v]) auto
  next
    case exhausted
    then show ?thesis by (intro exI [of _ ?n] exI [of _ w']) simp
  qed
  show "r = Rejected E_MENU \<longleftrightarrow>
          failedAttempts h cf btn ?id ?n ?w0 = Some w'
          \<and> querySelector h Document SelOpenMenu w' = None"
  proof (cases rule: cases)
    case (returned k v m)
    then show ?thesis by simp
  next
    case exhausted
    then show ?thesis by (cases "querySelector h Document SelOpenMenu w'") simp_all
  qed
  show "r = Resolved () \<or> r = Rejected E_MENU"
  proof (cases rule: cases)
    case (returned k v m)
    then show ?thesis by simp
  next
    case exhausted
    then show ?thesis by (cases "querySelector h Document SelOpenMenu w'") simp_all
  qed
next
  assume "clock_progress h"
  then show "openMenu_calls h cf btn w \<noteq> None"
    by (rule openMenu_calls_settles)
qed

theorem openMenu_bounded_retry_witness:
  "clock_progress stickyHost
   \<and> nat (clickRetries toyCfg) = 2
   \<and> buttonId stickyHost 101 (deafPage, []) = ''b''
   \<and> openMenu_calls stickyHost toyCfg 101 (deafPage, [])
       = Some (Resolved (),
               [CallScroll 101, CallClick 101, CallWaitMenu ''b'' 250 False, CallSleep 140,
                CallScroll 101, CallClick 101, CallWaitMenu ''b'' 250 True],
               (deafPage\<lparr> t_now := 2081 \<rparr>,
                [ScrolledIntoView 101, TimerFired 24, ScrolledIntoView 101, TimerFired 24]
                @ map (effectOf 101) (clickSequence 110 35)
                @ [TimerFired 45, TimerFired 140]
                @ [ScrolledIntoView 101, TimerFired 24, ScrolledIntoView 101, TimerFired 24]
                @ map (effectOf 101) (clickSequence 110 35)))
   \<and> failedAttempts stickyHost toyCfg 101 ''b'' 1 (deafPage, [])
       = Some (deafPage\<lparr> t_now := 1433 \<rparr>,
               [ScrolledIntoView 101, TimerFired 24, ScrolledIntoView 101, TimerFired 24]
               @ map (effectOf 101) (clickSequence 110 35)
               @ [TimerFired 45, TimerFired 140])
   \<and> failedAttempts stickyHost toyCfg 101 ''b'' 2 (deafPage, []) = None
   \<and> performAll stickyHost
         [CallScroll 101, CallClick 101, CallWaitMenu ''b'' 250 False, CallSleep 140,
          CallScroll 101, CallClick 101, CallWaitMenu ''b'' 250 True] (deafPage, [])
       = Some (deafPage\<lparr> t_now := 2081 \<rparr>,
               [ScrolledIntoView 101, TimerFired 24, ScrolledIntoView 101, TimerFired 24]
               @ map (effectOf 101) (clickSequence 110 35)
               @ [TimerFired 45, TimerFired 140]
               @ [ScrolledIntoView 101, TimerFired 24, ScrolledIntoView 101, TimerFired 24]
               @ map (effectOf 101) (clickSequence 110 35))
   \<and> clock_progress toyHost
   \<and> buttonId toyHost 101 deafPage = ''b''
   \<and> openMenu_calls toyHost toyCfg 101 deafPage
       = Some (Rejected E_MENU,
               [CallScroll 101, CallClick 101, CallWaitMenu ''b'' 250 False, CallSleep 140,
                CallScroll 101, CallClick 101, CallWaitMenu ''b'' 250 False, CallSleep 140],
               deafPage\<lparr> t_now := 1570 \<rparr>)
   \<and> failedAttempts toyHost toyCfg 101 ''b'' 2 deafPage = Some (deafPage\<lparr> t_now := 1570 \<rparr>)
   \<and> querySelector toyHost Document SelOpenMenu (deafPage\<lparr> t_now := 1570 \<rparr>) = None"
proof -
  let ?trace1 = "[ScrolledIntoView 101, TimerFired 24, ScrolledIntoView 101, TimerFired 24]
                @ map (effectOf 101) (clickSequence 110 35)
                @ [TimerFired 45, TimerFired 140]"
  let ?trace2 = "?trace1
                @ [ScrolledIntoView 101, TimerFired 24, ScrolledIntoView 101, TimerFired 24]
                @ map (effectOf 101) (clickSequence 110 35)"
  let ?FS = "[CallScroll 101, CallClick 101, CallWaitMenu ''b'' 250 False, CallSleep 140,
              CallScroll 101, CallClick 101, CallWaitMenu ''b'' 250 True]"
  let ?FF = "[CallScroll 101, CallClick 101, CallWaitMenu ''b'' 250 False, CallSleep 140,
              CallScroll 101, CallClick 101, CallWaitMenu ''b'' 250 False, CallSleep 140]"
  have n: "nat (clickRetries toyCfg) = 2"
    by code_simp
  have i: "buttonId stickyHost 101 (deafPage, []) = ''b''" "idProp stickyHost 101 (deafPage, []) = ''b''"
    "buttonId toyHost 101 deafPage = ''b''" "idProp toyHost 101 deafPage = ''b''"
    by code_simp+
  have s: "openMenu_calls stickyHost toyCfg 101 (deafPage, [])
       = Some (Resolved (), ?FS, (deafPage\<lparr> t_now := 2081 \<rparr>, ?trace2))"
    by code_simp
  have f: "failedAttempts stickyHost toyCfg 101 ''b'' 1 (deafPage, [])
       = Some (deafPage\<lparr> t_now := 1433 \<rparr>, ?trace1)"
    by code_simp
  have d: "openMenu_calls toyHost toyCfg 101 deafPage
       = Some (Rejected E_MENU, ?FF, deafPage\<lparr> t_now := 1570 \<rparr>)"
    by code_simp
  have e: "failedAttempts stickyHost toyCfg 101 ''b'' 2 (deafPage, []) = None"
    by code_simp
  from openMenu_bounded_retry [of toyCfg stickyHost 101 "(deafPage, [])" "Resolved ()" ?FS
      "(deafPage\<lparr> t_now := 2081 \<rparr>, ?trace2)"] s n i
  have p: "performAll stickyHost ?FS (deafPage, []) = Some (deafPage\<lparr> t_now := 2081 \<rparr>, ?trace2)"
    by (simp add: Let_def del: performAll.simps perform.simps failedAttempts.simps)
  from openMenu_bounded_retry [of toyCfg toyHost 101 deafPage "Rejected E_MENU" ?FF
      "deafPage\<lparr> t_now := 1570 \<rparr>"] d n i
  have g: "failedAttempts toyHost toyCfg 101 ''b'' 2 deafPage = Some (deafPage\<lparr> t_now := 1570 \<rparr>)"
    "querySelector toyHost Document SelOpenMenu (deafPage\<lparr> t_now := 1570 \<rparr>) = None"
    by (simp_all add: Let_def del: performAll.simps perform.simps failedAttempts.simps)
  from n i s f d e p g clock_progress_toy clock_progress_sticky show ?thesis
    by simp
qed

text \<open>
  C9.  When all \<open>clickRetries\<close> attempts of \<open>openMenu\<close> have timed out and some menu
  with \<^verbatim>\<open>data-state="open"\<close> is then in the document, whether or not it belongs to the
  trigger, \<open>openMenu\<close> returns normally.
\<close>

theorem openMenu_any_open_menu:
  assumes "openMenu_calls h cf btn w = Some (r, calls, w')"
    and "calls = concat (replicate (nat (clickRetries cf)) (failedAttempt cf btn (buttonId h btn w)))"
    and "querySelector h Document SelOpenMenu w' = Some m"
  shows "r = Resolved () \<and> openMenu h cf btn w = Some (Resolved (), w')"
proof -
  from openMenu_calls_cases [OF assms(1)] assms(2,3)
    attempts_distinct [of _ cf btn "buttonId h btn w" "nat (clickRetries cf)"]
  have "r = Resolved ()"
    by auto
  then show ?thesis
    using assms(1) by (simp add: openMenu_def)
qed

theorem openMenu_any_open_menu_witness:
  "openMenu_calls toyHost toyCfg 101 strayPage
     = Some (Resolved (),
             concat (replicate (nat (clickRetries toyCfg))
                       (failedAttempt toyCfg 101 (buttonId toyHost 101 strayPage))),
             strayPage\<lparr> t_now := 1570 \<rparr>)
   \<and> querySelector toyHost Document (SelMenuLabelledBy (buttonId toyHost 101 strayPage))
        (strayPage\<lparr> t_now := 1570 \<rparr>) = None
   \<and> querySelector toyHost Document SelOpenMenu (strayPage\<lparr> t_now := 1570 \<rparr>) = Some 200
   \<and> openMenu toyHost toyCfg 101 strayPage = Some (Resolved (), strayPage\<lparr> t_now := 1570 \<rparr>)"
proof -
  have a: "openMenu_calls toyHost toyCfg 101 strayPage
     = Some (Resolved (),
             concat (replicate (nat (clickRetries toyCfg))
                       (failedAttempt toyCfg 101 (buttonId toyHost 101 strayPage))),
             strayPage\<lparr> t_now := 1570 \<rparr>)"
    by code_simp
  have b: "querySelector toyHost Document (SelMenuLabelledBy (buttonId toyHost 101 strayPage))
        (strayPage\<lparr> t_now := 1570 \<rparr>) = None"
    by code_simp
  have c: "querySelector toyHost Document SelOpenMenu (strayPage\<lparr> t_now := 1570 \<rparr>) = Some 200"
    by code_simp
  from openMenu_any_open_menu [OF a _ c]
  have "openMenu toyHost toyCfg 101 strayPage = Some (Resolved (), strayPage\<lparr> t_now := 1570 \<rparr>)"
    by simp
  with a b c show ?thesis by simp
qed

section \<open>Properties of the per-item deletion\<close>

lemma andThen_settles:
  assumes "m w \<noteq> None" and "\<And>v w'. f v w' \<noteq> None"
  shows "andThen m f w \<noteq> None"
  using assms by (auto simp: andThen_def split: option.splits settled.splits)

lemma catchNull_settles: "m w \<noteq> None \<Longrightarrow> catchNull m w \<noteq> None"
  by (auto simp: catchNull_def split: option.splits settled.splits)

lemma always_settles: "always f w \<noteq> None"
  by (simp add: always_def)

lemma orThrow_settles: "orThrow e x w \<noteq> None"
  by (simp add: orThrow_def resolve_def reject_def split: option.splits)

lemma hover_settles: "hover h el w \<noteq> None"
  by (simp add: hover_def Let_def split: option.splits)

lemma openMenu_settles: "clock_progress h \<Longrightarrow> openMenu h cf btn w \<noteq> None"
  using openMenu_calls_settles [of h cf btn w]
  by (auto simp: openMenu_def split: option.splits)

lemma waitFor_default_settles: "clock_progress h \<Longrightarrow> waitFor h fn timeout defaultStep w \<noteq> None"
  by (rule waitFor_settles) (simp_all add: defaultStep_def)

lemma deleteViaUI_confirm_settles:
  assumes "clock_progress h"
  shows "deleteViaUI_confirm h cf href w \<noteq> None"
  unfolding deleteViaUI_confirm_def
  by (intro andThen_settles catchNull_settles always_settles orThrow_settles hover_settles
        openMenu_settles [OF assms] waitFor_default_settles [OF assms])

lemma deleteViaUI_settles:
  assumes "clock_progress h"
  shows "deleteViaUI h cf href w \<noteq> None"
  unfolding deleteViaUI_def awaitRowGone_def
  by (intro andThen_settles always_settles deleteViaUI_confirm_settles [OF assms]
        waitFor_default_settles [OF assms])

text \<open>
  C1, as the specification states it, does not hold: on \<open>keepsPage\<close> the deletion of
  \<^verbatim>\<open>/c/abc\<close> gets as far as the wait for the row to disappear, the wait elapses with the
  row still there, \<open>deleteViaUI\<close> rejects with the time-out error, and the run counts
  the item as a failure.
\<close>

theorem deleteViaUI_row_stays_counterexample:
  "deleteViaUI_confirm toyHost toyCfg ''/c/abc'' keepsPage = Some (Resolved (), keepsPage)
   \<and> awaitRowGone toyHost ''/c/abc'' keepsPage = Some (Rejected Timeout, keepsPage\<lparr> t_now := 8045 \<rparr>)
   \<and> findRowByHref toyHost ''/c/abc'' (keepsPage\<lparr> t_now := 8045 \<rparr>) = Some 1
   \<and> deleteViaUI toyHost toyCfg ''/c/abc'' keepsPage = Some (Rejected Timeout, keepsPage\<lparr> t_now := 8045 \<rparr>)
   \<and> map_option (snd \<circ> snd) (runBulkDelete toyHost alwaysFirst oneSelected keepsPage)
        = Some (Some \<lparr> sum_total = 1, sum_processed = 1, sum_succeeded = 0, sum_failed = 1 \<rparr>)"
  by code_simp

text \<open>
  C1, amended.  When \<open>deleteViaUI\<close> has clicked the confirm button and its wait for the
  row to disappear is rejected, the row is still present, \<open>deleteViaUI\<close> itself rejects
  with the time-out error, and the worker that awaits it, once resumed, has counted a
  failure, not a success, and has counted the item as processed.
\<close>

theorem deleteViaUI_row_stays:
  assumes "deleteViaUI_confirm h cf href (page st) = Some (Resolved (), w1)"
    and "awaitRowGone h href w1 = Some (Rejected e, w2)"
    and "workers st ! k = Deleting (ident, href)"
  shows "e = Timeout
       \<and> findRowByHref h href w2 \<noteq> None
       \<and> deleteViaUI h cf href (page st) = Some (Rejected Timeout, w2)
       \<and> (\<exists>st'. resume h (\<lambda>n. deleteViaUI h cf) items k st = Some st'
               \<and> succeeded st' = succeeded st
               \<and> failed st' = failed st + 1
               \<and> processed st' = processed st + 1)"
proof -
  from waitFor_rejected [OF assms(2) [unfolded awaitRowGone_def]]
  have e: "e = Timeout" and g: "rowGone h href w2 = None"
    by simp_all
  from g have r: "findRowByHref h href w2 \<noteq> None"
    by (auto simp: rowGone_def split: if_splits)
  have d: "deleteViaUI h cf href (page st) = Some (Rejected Timeout, w2)"
    using assms(1,2) e by (simp add: deleteViaUI_def andThen_def)
  let ?st' = "(settle h (length items) (ident, href) (Rejected Timeout) (st\<lparr> page := w2 \<rparr>))
                \<lparr> workers := (workers st)[k := Pausing] \<rparr>"
  have "resume h (\<lambda>n. deleteViaUI h cf) items k st = Some ?st'"
    using assms(3) d by (simp add: resume_def)
  moreover have "succeeded ?st' = succeeded st" "failed ?st' = failed st + 1"
    "processed ?st' = processed st + 1"
    by (simp_all add: settle_def Let_def)
  ultimately have "\<exists>st'. resume h (\<lambda>n. deleteViaUI h cf) items k st = Some st'
               \<and> succeeded st' = succeeded st
               \<and> failed st' = failed st + 1
               \<and> processed st' = processed st + 1"
    by blast
  with e r d show ?thesis by simp
qed

theorem deleteViaUI_row_stays_witness:
  "deleteViaUI_confirm toyHost toyCfg ''/c/abc'' (page onePool) = Some (Resolved (), keepsPage)
   \<and> awaitRowGone toyHost ''/c/abc'' keepsPage = Some (Rejected Timeout, keepsPage\<lparr> t_now := 8045 \<rparr>)
   \<and> workers onePool ! 0 = Deleting (''abc'', ''/c/abc'')
   \<and> findRowByHref toyHost ''/c/abc'' (keepsPage\<lparr> t_now := 8045 \<rparr>) \<noteq> None
   \<and> deleteViaUI toyHost toyCfg ''/c/abc'' (page onePool)
        = Some (Rejected Timeout, keepsPage\<lparr> t_now := 8045 \<rparr>)
   \<and> (\<exists>st'. resume toyHost (\<lambda>n. deleteViaUI toyHost toyCfg) (selected oneSelected) 0 onePool = Some st'
          \<and> succeeded st' = 0 \<and> failed st' = 1 \<and> processed st' = 1)"
proof -
  have p: "page onePool = keepsPage" "succeeded onePool = 0" "failed onePool = 0" "processed onePool = 0"
    by (simp_all add: onePool_def)
  have a: "deleteViaUI_confirm toyHost toyCfg ''/c/abc'' (page onePool) = Some (Resolved (), keepsPage)"
    unfolding p by code_simp
  have b: "awaitRowGone toyHost ''/c/abc'' keepsPage = Some (Rejected Timeout, keepsPage\<lparr> t_now := 8045 \<rparr>)"
    by code_simp
  have c: "workers onePool ! 0 = Deleting (''abc'', ''/c/abc'')"
    by (simp add: onePool_def)
  from deleteViaUI_row_stays [OF a b c, of "selected oneSelected"] a b c p show ?thesis
    by simp
qed

section \<open>Properties of the removal engine\<close>

lemma busy_update:
  assumes "k < length ws"
  shows "sum_list (map busy (ws[k := v])) + busy (ws ! k) = sum_list (map busy ws) + busy v"
  using assms elem_le_sum_list [of k "map busy ws"]
  by (simp add: map_update sum_list_update)

lemma settle_fields:
  "cursor (settle h tot it r st) = cursor st"
  "workers (settle h tot it r st) = workers st"
  "resumptions (settle h tot it r st) = resumptions st"
  "processed (settle h tot it r st) = processed st + 1"
  "succeeded (settle h tot it r st) + failed (settle h tot it r st) = succeeded st + failed st + 1"
  by (simp_all add: settle_def Let_def split: settled.splits)

lemma resume_inv:
  assumes inv: "pool_inv items st" and k: "k < length (workers st)" "workers st ! k \<noteq> Returned"
    and r: "resume h del items k st = Some st'"
  shows "pool_inv items st' \<and> length (workers st') = length (workers st)"
proof (cases "workers st ! k")
  case (Deleting it)
  with r obtain res w' where
    st': "st' = (settle h (length items) it res (st\<lparr> page := w' \<rparr>))\<lparr> workers := (workers st)[k := Pausing] \<rparr>"
    by (auto simp: resume_def split: option.splits)
  have f: "cursor st' = cursor st" "workers st' = (workers st)[k := Pausing]"
    "processed st' = processed st + 1"
    "succeeded st' + failed st' = succeeded st + failed st + 1"
    using settle_fields [of h "length items" it res "st\<lparr> page := w' \<rparr>"]
    by (simp_all add: st')
  have "Returned \<in> set ((workers st)[k := Pausing]) \<Longrightarrow> Returned \<in> set (workers st)"
    using set_update_subset_insert [of "workers st" k Pausing] by auto
  then show ?thesis
    using inv f busy_update [OF k(1), of Pausing] Deleting
    by (auto simp: pool_inv_def)
next
  case Pausing
  let ?wc = "loopHead items (Pausing, cursor st)"
  from r Pausing have f: "cursor st' = snd ?wc" "workers st' = (workers st)[k := fst ?wc]"
    "processed st' = processed st" "succeeded st' = succeeded st" "failed st' = failed st"
    by (auto simp: resume_def Let_def)
  show ?thesis
  proof (cases "cursor st < length items")
    case True
    then have wc: "fst ?wc = Deleting (items ! cursor st)" "snd ?wc = Suc (cursor st)"
      by (simp_all add: loopHead_def)
    have "Returned \<notin> set (workers st)"
      using inv True by (auto simp: pool_inv_def)
    then have "Returned \<notin> set ((workers st)[k := Deleting (items ! cursor st)])"
      using set_update_subset_insert [of "workers st" k "Deleting (items ! cursor st)"] by auto
    then show ?thesis
      using inv f wc True busy_update [OF k(1), of "Deleting (items ! cursor st)"] Pausing
      by (auto simp: pool_inv_def)
  next
    case False
    then have wc: "fst ?wc = Returned" "snd ?wc = cursor st"
      by (simp_all add: loopHead_def)
    show ?thesis
      using inv f wc False busy_update [OF k(1), of Returned] Pausing
      by (auto simp: pool_inv_def)
  qed
next
  case Returned
  with k(2) show ?thesis by simp
qed

lemma resume_settles:
  assumes "\<forall>n href w. del n href w \<noteq> None"
  shows "resume h del items k st \<noteq> None"
proof (cases "workers st ! k")
  case (Deleting it)
  from assms have "del (resumptions st) (snd it) (page st) \<noteq> None" by blast
  then show ?thesis
    using Deleting by (auto simp: resume_def split: option.splits)
qed (simp_all add: resume_def Let_def)

lemma pool_inv_resumptions: "pool_inv items (st\<lparr> resumptions := n \<rparr>) = pool_inv items st"
  by (simp add: pool_inv_def)

lemma suspended_resumptions: "suspended (st\<lparr> resumptions := n \<rparr>) = suspended st"
  by (simp add: suspended_def)

lemma drain_completes:
  "(\<forall>n href w. del n href w \<noteq> None) \<Longrightarrow> pool_inv items st \<Longrightarrow>
     \<exists>st'. drain h del sched items st = Some st' \<and> pool_inv items st' \<and> suspended st' = []
            \<and> length (workers st') = length (workers st)"
proof (induction h del sched items st rule: drain.induct)
  case (1 h del sched items st)
  show ?case
  proof (cases "suspended st = []")
    case True
    then have "drain h del sched items st = Some st"
      by (subst drain.simps) simp
    with True "1.prems" show ?thesis by simp
  next
    case False
    define k where "k = suspended st ! (sched (resumptions st) mod length (suspended st))"
    have "k \<in> set (suspended st)"
      unfolding k_def using False by simp
    then have k: "k < length (workers st)" "workers st ! k \<noteq> Returned"
      by (simp_all add: suspended_def)
    have "resume h del items k st \<noteq> None"
      using "1.prems"(1) by (rule resume_settles)
    then obtain st1 where r: "resume h del items k st = Some st1"
      by auto
    from resume_inv [OF "1.prems"(2) k r] have
      i1: "pool_inv items st1" and l1: "length (workers st1) = length (workers st)"
      by simp_all
    let ?st2 = "st1\<lparr> resumptions := Suc (resumptions st) \<rparr>"
    have i2: "pool_inv items ?st2"
      using i1 by (simp add: pool_inv_resumptions)
    from "1.IH" [OF False r [unfolded k_def] "1.prems"(1) i2] obtain st' where
      d: "drain h del sched items ?st2 = Some st'" "pool_inv items st'" "suspended st' = []"
        "length (workers st') = length (workers ?st2)"
      by blast
    have "drain h del sched items st = drain h del sched items ?st2"
      using False r [unfolded k_def] by (subst drain.simps) simp
    with d l1 show ?thesis by simp
  qed
qed

lemma spawn_inv:
  assumes "pool_inv items st"
  shows "pool_inv items (spawn items st) \<and> length (workers (spawn items st)) = Suc (length (workers st))"
  using assms by (auto simp: pool_inv_def spawn_def loopHead_def Let_def)

lemma spawnAll_inv:
  assumes "pool_inv items st"
  shows "pool_inv items (spawnAll items n st)
       \<and> length (workers (spawnAll items n st)) = n + length (workers st)"
proof (induction n)
  case 0
  then show ?case using assms by (simp add: spawnAll_def)
next
  case (Suc n)
  then show ?case
    using spawn_inv [of items "spawnAll items n st"] by (simp add: spawnAll_def)
qed

lemma all_returned_idle: "\<forall>x \<in> set ws. x = Returned \<Longrightarrow> sum_list (map busy ws) = 0"
  by (induction ws) auto

lemma finished_counts:
  assumes "pool_inv items st" and "suspended st = []" and "workers st \<noteq> []"
  shows "processed st = length items \<and> processed st = succeeded st + failed st"
proof -
  have all: "\<forall>k < length (workers st). workers st ! k = Returned"
    using assms(2) by (auto simp: suspended_def filter_empty_conv)
  then have "\<forall>x \<in> set (workers st). x = Returned"
    by (metis in_set_conv_nth)
  then have z: "sum_list (map busy (workers st)) = 0"
    by (rule all_returned_idle)
  have "Returned \<in> set (workers st)"
    using all assms(3) by (metis length_greater_0_conv nth_mem)
  with assms(1) z show ?thesis
    by (auto simp: pool_inv_def)
qed

lemma waitSidebarReady_loop_settles:
  assumes "clock_progress h"
  shows "waitSidebarReady_loop h t0 timeout w \<noteq> None"
proof (induction "nat (timeout + 1 - (perfNow h w - t0))" arbitrary: w rule: less_induct)
  case less
  show ?case
  proof (cases "perfNow h w - t0 \<le> timeout")
    case False
    then have "waitSidebarReady_loop h t0 timeout w = Some w"
      by (subst waitSidebarReady_loop.simps) simp
    then show ?thesis by simp
  next
    case True
    show ?thesis
    proof (cases "querySelector h (rowScope h w) SelChatRow w")
      case (Some row)
      with True have "waitSidebarReady_loop h t0 timeout w = Some w"
        by (subst waitSidebarReady_loop.simps) simp
      then show ?thesis by simp
    next
      case None
      let ?w = "sleep h 50 w"
      have "perfNow h w + 50 \<le> perfNow h ?w"
        using assms by (simp add: clock_progress_def sleep_def)
      then have "nat (timeout + 1 - (perfNow h ?w - t0)) < nat (timeout + 1 - (perfNow h w - t0))"
        using True by linarith
      from less [OF this] have "waitSidebarReady_loop h t0 timeout ?w \<noteq> None" .
      moreover have "waitSidebarReady_loop h t0 timeout w = waitSidebarReady_loop h t0 timeout ?w"
        using True None by (subst waitSidebarReady_loop.simps) simp
      ultimately show ?thesis by simp
    qed
  qed
qed

lemma waitSidebarReady_settles: "clock_progress h \<Longrightarrow> waitSidebarReady h timeout w \<noteq> None"
  by (simp add: waitSidebarReady_def waitSidebarReady_loop_settles)

lemma ensureNotOnSelected_settles:
  assumes "clock_progress h"
  shows "ensureNotOnSelected h items w \<noteq> None"
proof -
  have a: "\<And>w'. waitSidebarReady h 4000 w' \<noteq> None"
    using assms by (rule waitSidebarReady_settles)
  show ?thesis
    unfolding ensureNotOnSelected_def Let_def
    using a by (simp split: option.splits del: not_None_eq)
qed

lemma run_with_counts:
  assumes cp: "clock_progress h" and del: "\<forall>n href w. del n href w \<noteq> None"
    and en: "enabled (cfg e)" and ne: "selected e \<noteq> []" and c: "1 \<le> concurrency (cfg e)"
  shows "\<exists>e' w' s. runBulkDelete_with h del sched e w = Some (e', w', Some s)
           \<and> sum_total s = length (selected e)
           \<and> sum_processed s = length (selected e)
           \<and> sum_processed s = sum_succeeded s + sum_failed s"
proof -
  let ?items = "selected e"
  have "ensureNotOnSelected h ?items w \<noteq> None"
    using cp by (rule ensureNotOnSelected_settles)
  then obtain w1 where w1: "ensureNotOnSelected h ?items w = Some w1"
    by auto
  define st0 where "st0 = \<lparr> cursor = 0, processed = 0, succeeded = 0, failed = 0,
     eng = startRun (length ?items) e, page = w1, workers = [], resumptions = 0 \<rparr>"
  have i0: "pool_inv ?items st0"
    by (simp add: pool_inv_def st0_def)
  let ?n = "nat (concurrency (cfg e))"
  from spawnAll_inv [OF i0, of ?n] have
    i1: "pool_inv ?items (spawnAll ?items ?n st0)"
    and l1: "length (workers (spawnAll ?items ?n st0)) = ?n"
    by (simp_all add: st0_def)
  from drain_completes [OF del i1] obtain st where
    d: "drain h del sched ?items (spawnAll ?items ?n st0) = Some st"
    and i2: "pool_inv ?items st" and s2: "suspended st = []"
    and l2: "length (workers st) = ?n"
    using l1 by auto
  have "workers st \<noteq> []"
    using l2 c by auto
  from finished_counts [OF i2 s2 this] have
    cnt: "processed st = length ?items" "processed st = succeeded st + failed st"
    by simp_all
  have "waitSidebarReady h 3500 (page st) \<noteq> None"
    using cp by (rule waitSidebarReady_settles)
  then obtain w2 where w2: "waitSidebarReady h 3500 (page st) = Some w2"
    by auto
  have "runBulkDelete_with h del sched e w =
     Some (finishRun (updateBar (setStatus (StatusDone (succeeded st) (length ?items) (failed st)) (eng st))),
           attachCheckboxes h (cfg (setStatus (StatusDone (succeeded st) (length ?items) (failed st)) (eng st))) w2,
           Some \<lparr> sum_total = length ?items, sum_processed = processed st,
                  sum_succeeded = succeeded st, sum_failed = failed st \<rparr>)"
    using en ne w1 d [unfolded st0_def] w2
    by (simp add: runBulkDelete_with_def Let_def)
  then show ?thesis
    using cnt by simp
qed

lemma run_with_flags:
  assumes "enabled (cfg e)" and "selected e \<noteq> []"
    and "runBulkDelete_with h del sched e w = Some (e', w', s)"
  shows "\<not> running (bar e') \<and> loaderHidden (bar e') \<and> \<not> stealthAttr (bar e')"
proof -
  from assms obtain e2 where "e' = finishRun e2"
    by (auto simp: runBulkDelete_with_def Let_def split: option.splits)
  then show ?thesis
    by (simp add: finishRun_def showLoader_def Let_def)
qed

lemma cfg_toyEngine: "cfg toyEngine = newChatBulkUI (noOptions\<lparr> clickRetries_opt := Some 2 \<rparr>)"
  by (simp add: toyEngine_def updateBar_def toyCfg_def Let_def)

lemma toyEngine_ready: "enabled (cfg toyEngine)" "selected toyEngine \<noteq> []" "length (selected toyEngine) = 3"
  by (simp_all add: toyEngine_def updateBar_def toyCfg_def Let_def newChatBulkUI_def orDefault_def noOptions_def)

lemma deaf_run:
  "map_option (\<lambda>r. (running (bar (fst r)), loaderHidden (bar (fst r)), stealthAttr (bar (fst r)), snd (snd r)))
     (runBulkDelete toyHost roundRobin toyEngine deafPage)
   = Some (False, True, False,
           Some \<lparr> sum_total = 3, sum_processed = 3, sum_succeeded = 0, sum_failed = 3 \<rparr>)"
  by code_simp

text \<open>
  C2.  A run of an engine built by the constructor, enabled, over a snapshot of \<open>N\<close>
  selected items always completes, whatever the scheduler does and however the
  deletions settle, as long as each of them settles and timers do not fire early; when
  it completes, \<open>processed\<close> is \<open>N\<close> and is the sum of \<open>succeeded\<close> and \<open>failed\<close>.  With
  \<open>deleteViaUI\<close> as the deletion, every deletion does settle.
\<close>

theorem run_always_completes:
  assumes "clock_progress h" and "enabled (cfg e)" and "selected e \<noteq> []"
    and "cfg e = newChatBulkUI options"
  shows "((\<forall>n href w. del n href w \<noteq> None) \<longrightarrow>
            (\<exists>e' w' s. runBulkDelete_with h del sched e w = Some (e', w', Some s)
               \<and> sum_total s = length (selected e)
               \<and> sum_processed s = length (selected e)
               \<and> sum_processed s = sum_succeeded s + sum_failed s))
       \<and> (\<exists>e' w' s. runBulkDelete h sched e w = Some (e', w', Some s)
               \<and> sum_total s = length (selected e)
               \<and> sum_processed s = length (selected e)
               \<and> sum_processed s = sum_succeeded s + sum_failed s)"
proof -
  have c: "1 \<le> concurrency (cfg e)"
    by (simp add: assms(4) newChatBulkUI_def)
  have "\<forall>n href w. deleteViaUI h (cfg e) href w \<noteq> None"
    using assms(1) by (simp add: deleteViaUI_settles del: not_None_eq)
  from run_with_counts [OF assms(1) this assms(2,3) c, of sched w]
  have b: "\<exists>e' w' s. runBulkDelete h sched e w = Some (e', w', Some s)
               \<and> sum_total s = length (selected e)
               \<and> sum_processed s = length (selected e)
               \<and> sum_processed s = sum_succeeded s + sum_failed s"
    by (simp add: runBulkDelete_def)
  have a: "(\<forall>n href w. del n href w \<noteq> None) \<longrightarrow>
            (\<exists>e' w' s. runBulkDelete_with h del sched e w = Some (e', w', Some s)
               \<and> sum_total s = length (selected e)
               \<and> sum_processed s = length (selected e)
               \<and> sum_processed s = sum_succeeded s + sum_failed s)"
    using run_with_counts [OF assms(1) _ assms(2,3) c, of del sched w] by blast
  from a b show ?thesis by (rule conjI)
qed

theorem run_always_completes_witness:
  "clock_progress toyHost
   \<and> length (selected toyEngine) = 3
   \<and> (\<exists>e' w' s. runBulkDelete toyHost roundRobin toyEngine deafPage = Some (e', w', Some s)
         \<and> sum_total s = 3 \<and> sum_processed s = 3 \<and> sum_succeeded s = 0 \<and> sum_failed s = 3)"
proof -
  from run_always_completes [OF clock_progress_toy toyEngine_ready(1,2) cfg_toyEngine,
      of "\<lambda>n. deleteViaUI toyHost toyCfg" roundRobin deafPage]
  obtain e' w' s where
    r: "runBulkDelete toyHost roundRobin toyEngine deafPage = Some (e', w', Some s)"
    and t: "sum_total s = 3" "sum_processed s = 3"
    using toyEngine_ready(3) by auto
  from deaf_run r have "s = \<lparr> sum_total = 3, sum_processed = 3, sum_succeeded = 0, sum_failed = 3 \<rparr>"
    by simp
  with r t clock_progress_toy toyEngine_ready(3) show ?thesis
    by auto
qed

text \<open>
  C8.  When a run has completed, the bar no longer has the class \<^verbatim>\<open>running\<close>, the busy
  indicator is hidden and the stealth attribute is absent, however many items failed.
\<close>

theorem run_clears_running:
  assumes "enabled (cfg e)" and "selected e \<noteq> []"
    and "runBulkDelete_with h del sched e w = Some (e', w', s)"
  shows "\<not> running (bar e') \<and> loaderHidden (bar e') \<and> \<not> stealthAttr (bar e')"
  using assms by (rule run_with_flags)

theorem run_clears_running_witness:
  "\<exists>e' w'. runBulkDelete toyHost roundRobin toyEngine deafPage
       = Some (e', w', Some \<lparr> sum_total = 3, sum_processed = 3, sum_succeeded = 0, sum_failed = 3 \<rparr>)
     \<and> \<not> running (bar e') \<and> loaderHidden (bar e') \<and> \<not> stealthAttr (bar e')"
proof -
  from deaf_run obtain e' w' where
    r: "runBulkDelete toyHost roundRobin toyEngine deafPage
       = Some (e', w', Some \<lparr> sum_total = 3, sum_processed = 3, sum_succeeded = 0, sum_failed = 3 \<rparr>)"
    by auto
  from run_clears_running [OF toyEngine_ready(1,2) r [unfolded runBulkDelete_def]] r show ?thesis
    by blast
qed

end
